theory Spec2Isabelle
  imports
    Main
    "HOL-Library.Word"
    "HOL-Library.Multiset"
    "HOL-Library.Char_ord"
    "HOL-Library.List_Lexorder"
begin

section \<open>dolay: per-layer report of a saved container image (main.go)\<close>

text \<open>
  The program reads a tar archive, collects the manifest, the image history and one
  file listing per nested \<^verbatim>\<open>layer.tar\<close>, and prints one block per history step that
  is not marked empty. The model follows \<^verbatim>\<open>run\<close> statement by statement. Go strings are
  byte sequences (\<^typ>\<open>string\<close>), \<^verbatim>\<open>int\<close>, \<^verbatim>\<open>int64\<close> and \<^verbatim>\<open>uint64\<close> are 64-bit words:
  a signed one is read with \<^const>\<open>sint\<close>, and the conversion \<^verbatim>\<open>uint64(x)\<close> keeps the
  bit pattern.
\<close>

type_synonym goint = "64 word"
type_synonym int64 = "64 word"
type_synonym uint64 = "64 word"

subsection \<open>The functions of package strings that run calls\<close>

text \<open>
  \<^verbatim>\<open>strings.HasSuffix\<close>:
  \<^verbatim>\<open>len(s) >= len(suffix) && s[len(s)-len(suffix):] == suffix\<close>.
\<close>

definition HasSuffix :: "string \<Rightarrow> string \<Rightarrow> bool" where
  "HasSuffix s suffix \<longleftrightarrow>
     length suffix \<le> length s \<and> drop (length s - length suffix) s = suffix"

text \<open>
  \<^verbatim>\<open>strings.Index\<close>: the position of the first occurrence of \<open>sep\<close> in \<open>s\<close>;
  \<open>None\<close> stands for Go's \<open>-1\<close>.
\<close>

fun Index :: "string \<Rightarrow> string \<Rightarrow> nat option" where
  "Index [] sep = (if sep = [] then Some 0 else None)"
| "Index (c # cs) sep =
     (if take (length sep) (c # cs) = sep then Some 0
      else map_option Suc (Index cs sep))"

text \<open>
  \<^verbatim>\<open>strings.SplitN\<close> for a separator that is not empty (with an empty separator Go
  cuts the string into UTF-8 sequences; \<^verbatim>\<open>run\<close> passes the literal
  \<^verbatim>\<open>"/bin/sh -c "\<close>, and that case is left out). Go bounds the number of pieces by
  \<open>n\<close>, or by the number of occurrences plus one when \<open>n < 0\<close>, and by
  \<open>len(s) + 1\<close>; \<open>genSplit\<close> is its loop, which stops after \<open>k\<close> cuts or when
  the separator no longer occurs.
\<close>

fun genSplit :: "nat \<Rightarrow> string \<Rightarrow> string \<Rightarrow> string list" where
  "genSplit 0 s sep = [s]"
| "genSplit (Suc k) s sep =
     (case Index s sep of
        None \<Rightarrow> [s]
      | Some m \<Rightarrow> take m s # genSplit k (drop (m + length sep) s) sep)"

fun SplitN :: "string \<Rightarrow> string \<Rightarrow> int \<Rightarrow> string list" where
  "SplitN s (c # cs) n =
     (if n = 0 then []
      else if n < 0 \<or> n > int (length s) + 1
        then genSplit (length s) s (c # cs)
        else genSplit (nat n - 1) s (c # cs))"

text \<open>
  \<^verbatim>\<open>strings.Replace(s, old, new, n)\<close> for a non-empty \<open>old\<close>: the first \<open>n\<close>
  non-overlapping occurrences are replaced, all of them when \<open>n < 0\<close>. Its first
  statement is \<^verbatim>\<open>if old == new || n == 0 { return s }\<close>.
\<close>

fun Replace_loop :: "nat \<Rightarrow> string \<Rightarrow> string \<Rightarrow> string \<Rightarrow> string" where
  "Replace_loop 0 s old new = s"
| "Replace_loop (Suc k) s old new =
     (case Index s old of
        None \<Rightarrow> s
      | Some j \<Rightarrow> take j s @ new @ Replace_loop k (drop (j + length old) s) old new)"

fun Replace :: "string \<Rightarrow> string \<Rightarrow> string \<Rightarrow> int \<Rightarrow> string" where
  "Replace s (c # cs) new n =
     (if c # cs = new \<or> n = 0 then s
      else Replace_loop (if n < 0 then length s else nat n) s (c # cs) new)"

subsection \<open>Data\<close>

text \<open>
  Of a \<^verbatim>\<open>tar.Header\<close> the program reads \<^verbatim>\<open>Name\<close>, \<^verbatim>\<open>Size\<close> (an \<^verbatim>\<open>int64\<close>) and
  \<^verbatim>\<open>FileInfo().IsDir()\<close>, which the tar package derives from the header's type flag
  and mode; the field \<open>IsDir\<close> holds that answer.
\<close>

record Header =
  Name :: string
  Size :: int64
  IsDir :: bool

record ManifestItem =
  Config :: string
  RepoTags :: "string list"
  Layers :: "string list"

record History =
  EmptyLayer :: bool
  CreatedBy :: string

text \<open>
  \<^verbatim>\<open>Image.History\<close> is a slice, a window on an array. \<open>History\<close> holds the elements
  of the window, and \<open>History_spare\<close> those of the array that lie behind it, as far as
  something has been written there (the rest of the array is zero): the JSON decoder
  brings them back into the window.
\<close>

record Image =
  History :: "History list"
  History_spare :: "History list"

text \<open>\<^verbatim>\<open>Layer.Size\<close> is named \<open>LayerSize\<close> here, apart from the header's \<open>Size\<close>.\<close>

record Layer =
  Files :: "Header list"
  LayerSize :: uint64

definition humanizedWidth :: goint where
  "humanizedWidth = 7"

definition manifest :: string where
  "manifest = ''manifest.json''"

subsection \<open>Ordering the files of a layer\<close>

text \<open>\<^verbatim>\<open>Files.Less\<close>, on the two elements that the indices select.\<close>

definition Less :: "Header \<Rightarrow> Header \<Rightarrow> bool" where
  "Less a b =
     (if Size a \<noteq> Size b then sint (Size b) < sint (Size a)
      else Name a < Name b)"

text \<open>
  \<^verbatim>\<open>sort.Sort(layer.Files)\<close> rearranges the slice in place so that no element is
  \<open>Less\<close> than one before it. The library's algorithm is modelled by insertion with
  \<open>Less\<close>; every arrangement that meets this contract prints the same sizes and
  names, as the theorem on the order of the files shows.
\<close>

fun insert_Files :: "Header \<Rightarrow> Header list \<Rightarrow> Header list" where
  "insert_Files h [] = [h]"
| "insert_Files h (x # xs) =
     (if Less x h then x # insert_Files h xs else h # x # xs)"

fun sort_Files :: "Header list \<Rightarrow> Header list" where
  "sort_Files [] = []"
| "sort_Files (h # hs) = insert_Files h (sort_Files hs)"

subsection \<open>The input: an archive as the tar and JSON readers present it\<close>

text \<open>
  \<^verbatim>\<open>run\<close> either returns \<^verbatim>\<open>nil\<close>, returns an error (which \<^verbatim>\<open>main\<close> hands to
  \<^verbatim>\<open>log.Fatal\<close>), or panics. What it printed before is kept next to that status.
\<close>

datatype error = OpenError | TarError | JSONError

datatype panic = IndexOutOfRange | NilDereference | SliceBounds | NegativeRepeat

datatype status = Done | Failed error | Panicked panic

text \<open>
  A tar reader yields headers until \<^verbatim>\<open>Next\<close> returns \<^verbatim>\<open>io.EOF\<close> or another error.
\<close>

datatype tar_end = EOF | Broken

text \<open>
  The JSON of an image configuration, as far as \<^verbatim>\<open>Image\<close> reads it. An element of the
  array under \<^verbatim>\<open>history\<close> gives a value for \<^verbatim>\<open>empty_layer\<close> and for \<^verbatim>\<open>created_by\<close>
  or omits the key (\<open>None\<close>; Docker omits \<^verbatim>\<open>empty_layer\<close> when it is false). The
  document has the key \<^verbatim>\<open>history\<close> with an array, or not (\<open>None\<close>); the empty list
  stands for \<^verbatim>\<open>[]\<close> and for \<^verbatim>\<open>null\<close>.
\<close>

record history_doc =
  empty_layer :: "bool option"
  created_by :: "string option"

record image_doc =
  history_key :: "history_doc list option"

text \<open>
  \<^verbatim>\<open>Decode(&img)\<close> writes into the variable that earlier entries have filled, and
  \<^verbatim>\<open>run\<close> never resets it. A key that the document lacks leaves its field as it
  was. An array is decoded element by element into the array of the slice it finds:
  element \<open>i\<close> is decoded over what that array holds at index \<open>i\<close> (the zero value
  where nothing was written yet), so a key that the element omits keeps the value an
  earlier entry has left there; then the slice is cut to the length of the JSON
  array. For \<^verbatim>\<open>[]\<close> and \<^verbatim>\<open>null\<close> the field becomes an empty slice without an array.
\<close>

definition zero_History :: History where
  "zero_History = \<lparr>EmptyLayer = False, CreatedBy = []\<rparr>"

definition decode_elem :: "history_doc \<Rightarrow> History \<Rightarrow> History" where
  "decode_elem d h =
     \<lparr>EmptyLayer = (case empty_layer d of None \<Rightarrow> EmptyLayer h | Some b \<Rightarrow> b),
      CreatedBy = (case created_by d of None \<Rightarrow> CreatedBy h | Some c \<Rightarrow> c)\<rparr>"

fun decode_array :: "history_doc list \<Rightarrow> History list \<Rightarrow> History list" where
  "decode_array [] mem = []"
| "decode_array (d # ds) [] = decode_elem d zero_History # decode_array ds []"
| "decode_array (d # ds) (h # mem) = decode_elem d h # decode_array ds mem"

definition decode_image :: "image_doc \<Rightarrow> Image \<Rightarrow> Image" where
  "decode_image doc img =
     (case history_key doc of
        None \<Rightarrow> img
      | Some [] \<Rightarrow> \<lparr>History = [], History_spare = []\<rparr>
      | Some (d # ds) \<Rightarrow>
          \<lparr>History = decode_array (d # ds) (History img @ History_spare img),
           History_spare = drop (length (d # ds)) (History img @ History_spare img)\<rparr>)"

text \<open>
  An entry of the outer archive: its header, and its content as each reader that
  \<^verbatim>\<open>run\<close> may point at it presents it. \<open>nested\<close> is the content read by
  \<^verbatim>\<open>tar.NewReader\<close>; \<open>manifest_json\<close> and \<open>image_json\<close> are the results of the
  two JSON decoders, \<open>None\<close> when decoding fails; \<open>manifest_json\<close> holds the slice
  the decoder leaves in \<^verbatim>\<open>manifests\<close>. The name of the entry selects the one that is
  used.
\<close>

record entry =
  hdr :: Header
  nested :: "Header list \<times> tar_end"
  manifest_json :: "ManifestItem list option"
  image_json :: "image_doc option"

record archive =
  entries :: "entry list"
  ending :: tar_end

text \<open>The flags \<^verbatim>\<open>-n\<close> and \<^verbatim>\<open>-l\<close> (\<^verbatim>\<open>-f\<close> only names the file to open).\<close>

record flags =
  maxFiles :: goint
  lineWidth :: goint

text \<open>The variables that the walk over the archive fills.\<close>

record walked =
  manifests :: "ManifestItem list"
  img :: Image
  layers :: "string \<rightharpoonup> Layer"

definition start :: walked where
  "start = \<lparr>manifests = [], img = \<lparr>History = [], History_spare = []\<rparr>, layers = Map.empty\<rparr>"

subsection \<open>The walk (lines 90 to 131)\<close>

text \<open>The inner loop over a nested archive (\<open>tot\<close> is \<^verbatim>\<open>total\<close>): directories are skipped.\<close>

fun layer_loop :: "Header list \<Rightarrow> Header list \<Rightarrow> uint64 \<Rightarrow> Header list \<times> uint64" where
  "layer_loop [] fs tot = (fs, tot)"
| "layer_loop (h # hs) fs tot =
     (if IsDir h then layer_loop hs fs tot
      else layer_loop hs (fs @ [h]) (tot + Size h))"

definition read_layer :: "Header list \<times> tar_end \<Rightarrow> error + Layer" where
  "read_layer rd =
     (case snd rd of
        Broken \<Rightarrow> Inl TarError
      | EOF \<Rightarrow>
          (case layer_loop (fst rd) [] 0 of
             (fs, tot) \<Rightarrow> Inr \<lparr>Files = fs, LayerSize = tot\<rparr>))"

definition walk_entry :: "walked \<Rightarrow> entry \<Rightarrow> error + walked" where
  "walk_entry st e =
     (if HasSuffix (Name (hdr e)) ''/layer.tar'' then
        (case read_layer (nested e) of
           Inl err \<Rightarrow> Inl err
         | Inr l \<Rightarrow> Inr (st\<lparr>layers := (layers st)(Name (hdr e) \<mapsto> l)\<rparr>))
      else if Name (hdr e) = manifest then
        (case manifest_json e of
           None \<Rightarrow> Inl JSONError
         | Some ms \<Rightarrow> Inr (st\<lparr>manifests := ms\<rparr>))
      else if HasSuffix (Name (hdr e)) ''.json'' then
        (case image_json e of
           None \<Rightarrow> Inl JSONError
         | Some doc \<Rightarrow> Inr (st\<lparr>img := decode_image doc (img st)\<rparr>))
      else Inr st)"

fun walk :: "walked \<Rightarrow> entry list \<Rightarrow> tar_end \<Rightarrow> error + walked" where
  "walk st [] EOF = Inr st"
| "walk st [] Broken = Inl TarError"
| "walk st (e # es) fin =
     (case walk_entry st e of
        Inl err \<Rightarrow> Inl err
      | Inr st' \<Rightarrow> walk st' es fin)"

subsection \<open>Dropping the empty history steps (lines 66 to 73 and 134 to 135)\<close>

text \<open>\<^verbatim>\<open>removeEmptyLayers\<close> as written, for a slice \<open>h\<close> that shares no memory with \<open>old\<close>.\<close>

fun removeEmptyLayers :: "History list \<Rightarrow> History list \<Rightarrow> History list" where
  "removeEmptyLayers h [] = h"
| "removeEmptyLayers h (action # old) =
     (if \<not> EmptyLayer action then removeEmptyLayers (h @ [action]) old
      else removeEmptyLayers h old)"

text \<open>
  \<^verbatim>\<open>run\<close> calls it with \<^verbatim>\<open>h = img.History[:0]\<close>, a slice of length 0 over the array
  that \<open>old\<close> is read from. \<open>arr\<close> is that array, \<open>k\<close> the length of \<open>h\<close>, \<open>i\<close>
  the index that \<^verbatim>\<open>range old\<close> has reached and \<open>n\<close> the length of \<open>old\<close>. Each
  \<^verbatim>\<open>append\<close> finds room (\<open>k \<le> i < n\<close>) and writes element \<open>k\<close> of the array.
\<close>

function removeEmptyLayers_shared :: "History list \<Rightarrow> nat \<Rightarrow> nat \<Rightarrow> nat \<Rightarrow> History list" where
  "removeEmptyLayers_shared arr k i n =
     (if i < n then
        (let action = arr ! i in
         if \<not> EmptyLayer action then removeEmptyLayers_shared (arr[k := action]) (Suc k) (Suc i) n
         else removeEmptyLayers_shared arr k (Suc i) n)
      else take k arr)"
  by pat_completeness auto
termination
  by (relation "measure (\<lambda>(arr, k, i, n). n - i)") auto

subsection \<open>The report (lines 137 to 163)\<close>

datatype line =
    Blank
  | Rule string
  | Summary uint64 string
  | FileLine uint64 string

text \<open>\<^verbatim>\<open>strings.Repeat\<close> panics on a negative count.\<close>

definition Repeat :: "string \<Rightarrow> goint \<Rightarrow> panic + string" where
  "Repeat s cnt =
     (if sint cnt < 0 then Inl NegativeRepeat
      else Inr (concat (replicate (nat (sint cnt)) s)))"

text \<open>Lines 141 to 147: the command of a history step.\<close>

definition derive_cmd :: "History \<Rightarrow> string" where
  "derive_cmd action =
     (let tokens = SplitN (CreatedBy action) ''/bin/sh -c '' 2
      in if length tokens = 2 then tokens ! 1 else CreatedBy action)"

text \<open>Lines 148 to 150: \<^verbatim>\<open>cmd[:cmdWidth]\<close> panics when \<open>cmdWidth\<close> is negative.\<close>

definition truncate_cmd :: "goint \<Rightarrow> string \<Rightarrow> panic + string" where
  "truncate_cmd cmdWidth cmd =
     (if sint cmdWidth < int (length cmd) then
        (if sint cmdWidth < 0 then Inl SliceBounds
         else Inr (take (nat (sint cmdWidth)) cmd))
      else Inr cmd)"

text \<open>Lines 157 to 162: the files of a layer, until index \<open>j\<close> reaches \<open>maxFiles\<close>.\<close>

fun file_lines :: "goint \<Rightarrow> nat \<Rightarrow> Header list \<Rightarrow> line list" where
  "file_lines mx j [] = []"
| "file_lines mx j (f # fs) =
     (if sint mx \<le> int j then []
      else FileLine (Size f) (Name f) # file_lines mx (Suc j) fs)"

text \<open>
  The loop over the filtered history. \<open>ls\<close> is \<^verbatim>\<open>manifest.Layers\<close> and \<open>i\<close> the index
  of \<open>action\<close>. The map holds pointers: sorting \<^verbatim>\<open>layer.Files\<close> changes the layer that
  later steps find under the same path. Sizes are printed through
  \<^verbatim>\<open>humanizeBytes\<close> and the colour package, which lie outside the model: a line keeps
  the size itself and the text handed over.
\<close>

fun report :: "flags \<Rightarrow> goint \<Rightarrow> string list \<Rightarrow> nat \<Rightarrow> History list
    \<Rightarrow> (string \<rightharpoonup> Layer) \<Rightarrow> line list \<times> status" where
  "report cfg cmdWidth ls i [] lys = ([], Done)"
| "report cfg cmdWidth ls i (action # rest) lys =
     (if length ls \<le> i then ([], Panicked IndexOutOfRange)
      else
        (case truncate_cmd cmdWidth (derive_cmd action) of
           Inl p \<Rightarrow> ([], Panicked p)
         | Inr cmd \<Rightarrow>
             (case Repeat ''='' (lineWidth cfg) of
                Inl p \<Rightarrow> ([Blank], Panicked p)
              | Inr bar \<Rightarrow>
                  (case lys (ls ! i) of
                     None \<Rightarrow> ([Blank, Rule bar], Panicked NilDereference)
                   | Some layer \<Rightarrow>
                       (let sorted = sort_Files (Files layer);
                            block = [Blank, Rule bar,
                                     Summary (LayerSize layer) (Replace cmd [CHR 0x09] '' '' 0),
                                     Rule bar] @ file_lines (maxFiles cfg) 0 sorted;
                            later = report cfg cmdWidth ls (Suc i) rest
                                      (lys(ls ! i \<mapsto> layer\<lparr>Files := sorted\<rparr>))
                        in (block @ fst later, snd later))))))"

text \<open>\<^verbatim>\<open>run\<close>; \<open>None\<close> for the file stands for a failing \<^verbatim>\<open>os.Open\<close>.\<close>

definition run :: "flags \<Rightarrow> archive option \<Rightarrow> line list \<times> status" where
  "run cfg file =
     (case file of
        None \<Rightarrow> ([], Failed OpenError)
      | Some r \<Rightarrow>
          (case walk start (entries r) (ending r) of
             Inl err \<Rightarrow> ([], Failed err)
           | Inr st \<Rightarrow>
               (case manifests st of
                  [] \<Rightarrow> ([], Panicked IndexOutOfRange)
                | m # _ \<Rightarrow>
                    (let history = removeEmptyLayers_shared (History (img st)) 0 0
                                     (length (History (img st)));
                         cmdWidth = lineWidth cfg - humanizedWidth - 4
                     in report cfg cmdWidth (Layers m) 0 history (layers st)))))"

declare removeEmptyLayers_shared.simps [simp del]

subsection \<open>What the specification says, in its own terms\<close>

text \<open>The history steps that survive the filter, in their order.\<close>

definition surviving :: "walked \<Rightarrow> History list" where
  "surviving st = filter (\<lambda>a. \<not> EmptyLayer a) (History (img st))"

text \<open>
  The block of a step and a layer as the specification describes it: a blank line, a
  rule of \<open>lineWidth\<close> signs, the summary with the layer's total and the command cut
  to \<open>lineWidth - 11\<close> bytes, a rule, and the first \<open>maxFiles\<close> files of the layer
  in sorted order.
\<close>

definition block :: "flags \<Rightarrow> History \<Rightarrow> Layer \<Rightarrow> line list" where
  "block cfg action layer =
     [Blank,
      Rule (replicate (nat (sint (lineWidth cfg))) CHR ''=''),
      Summary (LayerSize layer) (take (nat (sint (lineWidth cfg) - 11)) (derive_cmd action)),
      Rule (replicate (nat (sint (lineWidth cfg))) CHR ''='')]
     @ map (\<lambda>f. FileLine (Size f) (Name f))
         (take (nat (sint (maxFiles cfg))) (sort_Files (Files layer)))"

text \<open>
  The blocks of the first \<open>n\<close> steps, the step at position \<open>j\<close> with the layer stored
  under the path at position \<open>j\<close>.
\<close>

definition blocks :: "flags \<Rightarrow> History list \<Rightarrow> string list \<Rightarrow> (string \<rightharpoonup> Layer)
    \<Rightarrow> nat \<Rightarrow> line list list" where
  "blocks cfg hist ls lys n =
     map (\<lambda>j. block cfg (hist ! j) (the (lys (ls ! j)))) [0..<n]"

text \<open>
  The order in which the specification wants two files \<open>a\<close> before \<open>b\<close> to stand:
  the larger size first, and for equal sizes the smaller name first.
\<close>

definition ranked :: "Header \<Rightarrow> Header \<Rightarrow> bool" where
  "ranked a b \<longleftrightarrow>
     (Size a \<noteq> Size b \<longrightarrow> sint (Size b) < sint (Size a)) \<and>
     (Size a = Size b \<longrightarrow> Name a \<le> Name b)"



text \<open>
  Two layer maps print alike when they hold layers under the same paths, with the
  same totals and the same files once sorted.
\<close>

definition same_report :: "(string \<rightharpoonup> Layer) \<Rightarrow> (string \<rightharpoonup> Layer) \<Rightarrow> bool" where
  "same_report lys lys0 \<longleftrightarrow>
     (\<forall>p. rel_option
            (\<lambda>l l0. LayerSize l = LayerSize l0 \<and> sort_Files (Files l) = sort_Files (Files l0))
            (lys p) (lys0 p))"

subsection \<open>Example archives\<close>

text \<open>
  Entries as a saved image has them: a nested layer archive, an image configuration
  with a history, a configuration-like JSON object without the key \<^verbatim>\<open>history\<close>, and
  the manifest with one item.
\<close>

definition layer_entry :: "string \<Rightarrow> Header list \<Rightarrow> entry" where
  "layer_entry name hs =
     \<lparr>hdr = \<lparr>Name = name, Size = 0, IsDir = False\<rparr>, nested = (hs, EOF),
      manifest_json = None, image_json = None\<rparr>"

text \<open>
  The JSON element that Docker writes for a step: \<^verbatim>\<open>empty_layer\<close> only when it is
  true.
\<close>

definition doc_of :: "History \<Rightarrow> history_doc" where
  "doc_of h =
     \<lparr>empty_layer = (if EmptyLayer h then Some True else None),
      created_by = Some (CreatedBy h)\<rparr>"

definition config_entry :: "string \<Rightarrow> History list \<Rightarrow> entry" where
  "config_entry name hist =
     \<lparr>hdr = \<lparr>Name = name, Size = 0, IsDir = False\<rparr>, nested = ([], Broken),
      manifest_json = None, image_json = Some \<lparr>history_key = Some (map doc_of hist)\<rparr>\<rparr>"

definition object_entry :: "string \<Rightarrow> entry" where
  "object_entry name =
     \<lparr>hdr = \<lparr>Name = name, Size = 0, IsDir = False\<rparr>, nested = ([], Broken),
      manifest_json = None, image_json = Some \<lparr>history_key = None\<rparr>\<rparr>"

definition manifest_item :: "string list \<Rightarrow> ManifestItem" where
  "manifest_item paths = \<lparr>Config = ''config.json'', RepoTags = [], Layers = paths\<rparr>"

definition manifest_entry :: "string list \<Rightarrow> entry" where
  "manifest_entry paths =
     \<lparr>hdr = \<lparr>Name = ''manifest.json'', Size = 0, IsDir = False\<rparr>, nested = ([], Broken),
      manifest_json = Some [manifest_item paths], image_json = None\<rparr>"

definition regular :: "string \<Rightarrow> int64 \<Rightarrow> Header" where
  "regular name sz = \<lparr>Name = name, Size = sz, IsDir = False\<rparr>"

definition directory :: "string \<Rightarrow> Header" where
  "directory name = \<lparr>Name = name, Size = 0, IsDir = True\<rparr>"

definition step :: "string \<Rightarrow> History" where
  "step c = \<lparr>EmptyLayer = False, CreatedBy = c\<rparr>"

definition empty_step :: "string \<Rightarrow> History" where
  "empty_step c = \<lparr>EmptyLayer = True, CreatedBy = c\<rparr>"

text \<open>The defaults of the flags.\<close>

definition default_flags :: flags where
  "default_flags = \<lparr>maxFiles = 10, lineWidth = 100\<rparr>"

text \<open>
  The example of the specification: one layer path, a history of an empty step and
  one that ran \<^verbatim>\<open>touch /a\<close>, and a layer with a directory and the files \<^verbatim>\<open>/a\<close>
  (size 0) and \<^verbatim>\<open>/b\<close> (size 100).
\<close>

definition abc_files :: "Header list" where
  "abc_files = [directory ''/etc'', regular ''/a'' 0, regular ''/b'' 100]"

definition abc_layer :: Layer where
  "abc_layer = \<lparr>Files = [regular ''/a'' 0, regular ''/b'' 100], LayerSize = 100\<rparr>"

definition example_archive :: archive where
  "example_archive =
     \<lparr>entries = [layer_entry ''abc/layer.tar'' abc_files,
                 config_entry ''config.json''
                   [empty_step ''FROM scratch'', step ''/bin/sh -c touch /a''],
                 manifest_entry [''abc/layer.tar'']],
      ending = EOF\<rparr>"

definition example_walked :: walked where
  "example_walked =
     \<lparr>manifests = [manifest_item [''abc/layer.tar'']],
      img = \<lparr>History = [empty_step ''FROM scratch'', step ''/bin/sh -c touch /a''], History_spare = []\<rparr>,
      layers = [''abc/layer.tar'' \<mapsto> abc_layer]\<rparr>"

text \<open>One surviving step against two layer paths.\<close>

definition def_layer :: Layer where
  "def_layer = \<lparr>Files = [regular ''/c'' 7], LayerSize = 7\<rparr>"

definition fewer_steps_archive :: archive where
  "fewer_steps_archive =
     \<lparr>entries = [layer_entry ''abc/layer.tar'' abc_files,
                 layer_entry ''def/layer.tar'' [regular ''/c'' 7],
                 config_entry ''config.json''
                   [empty_step ''FROM scratch'', step ''/bin/sh -c touch /a''],
                 manifest_entry [''abc/layer.tar'', ''def/layer.tar'']],
      ending = EOF\<rparr>"

definition fewer_steps_walked :: walked where
  "fewer_steps_walked =
     \<lparr>manifests = [manifest_item [''abc/layer.tar'', ''def/layer.tar'']],
      img = \<lparr>History = [empty_step ''FROM scratch'', step ''/bin/sh -c touch /a''], History_spare = []\<rparr>,
      layers = [''abc/layer.tar'' \<mapsto> abc_layer, ''def/layer.tar'' \<mapsto> def_layer]\<rparr>"

text \<open>Two surviving steps against one layer path.\<close>

definition more_steps_archive :: archive where
  "more_steps_archive =
     \<lparr>entries = [layer_entry ''abc/layer.tar'' abc_files,
                 config_entry ''config.json''
                   [step ''/bin/sh -c touch /a'', step ''COPY . .''],
                 manifest_entry [''abc/layer.tar'']],
      ending = EOF\<rparr>"

definition more_steps_walked :: walked where
  "more_steps_walked =
     \<lparr>manifests = [manifest_item [''abc/layer.tar'']],
      img = \<lparr>History = [step ''/bin/sh -c touch /a'', step ''COPY . .''], History_spare = []\<rparr>,
      layers = [''abc/layer.tar'' \<mapsto> abc_layer]\<rparr>"





text \<open>The same, with a second configuration whose elements give both keys.\<close>

definition full_doc :: "History \<Rightarrow> history_doc" where
  "full_doc h = \<lparr>empty_layer = Some (EmptyLayer h), created_by = Some (CreatedBy h)\<rparr>"

definition full_config_entry :: "string \<Rightarrow> History list \<Rightarrow> entry" where
  "full_config_entry name hist =
     \<lparr>hdr = \<lparr>Name = name, Size = 0, IsDir = False\<rparr>, nested = ([], Broken),
      manifest_json = None, image_json = Some \<lparr>history_key = Some (map full_doc hist)\<rparr>\<rparr>"



text \<open>
  Two layers that the manifest lists in the other order than the archive holds them,
  and a history with a step marked empty between the two others.
\<close>

definition two_layers_archive :: archive where
  "two_layers_archive =
     \<lparr>entries = [layer_entry ''abc/layer.tar'' abc_files,
                 layer_entry ''def/layer.tar'' [regular ''/c'' 7],
                 config_entry ''config.json''
                   [step ''/bin/sh -c touch /a'', empty_step ''ENV X=1'', step ''COPY . .''],
                 manifest_entry [''def/layer.tar'', ''abc/layer.tar'']],
      ending = EOF\<rparr>"

definition two_layers_walked :: walked where
  "two_layers_walked =
     \<lparr>manifests = [manifest_item [''def/layer.tar'', ''abc/layer.tar'']],
      img = \<lparr>History = [step ''/bin/sh -c touch /a'', empty_step ''ENV X=1'', step ''COPY . .''],
             History_spare = []\<rparr>,
      layers = [''abc/layer.tar'' \<mapsto> abc_layer, ''def/layer.tar'' \<mapsto> def_layer]\<rparr>"

definition two_layers_report :: "line list" where
  "two_layers_report =
     [Blank, Rule (replicate 100 CHR ''=''), Summary 7 ''touch /a'',
      Rule (replicate 100 CHR ''=''), FileLine 7 ''/c'',
      Blank, Rule (replicate 100 CHR ''=''), Summary 100 ''COPY . .'',
      Rule (replicate 100 CHR ''=''), FileLine 100 ''/b'', FileLine 0 ''/a'']"

text \<open>
  Archives on which the run fails: a configuration that does not decode, an archive
  that breaks off after its entries, one without a manifest, and one whose manifest
  names a layer that the archive does not hold.
\<close>

definition broken_archive :: archive where
  "broken_archive =
     \<lparr>entries = [layer_entry ''abc/layer.tar'' abc_files,
                 \<lparr>hdr = \<lparr>Name = ''config.json'', Size = 0, IsDir = False\<rparr>,
                  nested = ([], Broken), manifest_json = None, image_json = None\<rparr>,
                 manifest_entry [''abc/layer.tar'']],
      ending = EOF\<rparr>"

definition truncated_archive :: archive where
  "truncated_archive =
     \<lparr>entries = [layer_entry ''abc/layer.tar'' abc_files,
                 manifest_entry [''abc/layer.tar'']],
      ending = Broken\<rparr>"

definition no_manifest_archive :: archive where
  "no_manifest_archive =
     \<lparr>entries = [layer_entry ''abc/layer.tar'' abc_files,
                 config_entry ''config.json'' [step ''COPY . .'']],
      ending = EOF\<rparr>"

definition missing_layer_archive :: archive where
  "missing_layer_archive =
     \<lparr>entries = [config_entry ''config.json'' [step ''COPY . .''],
                 manifest_entry [''abc/layer.tar'']],
      ending = EOF\<rparr>"

definition missing_layer_walked :: walked where
  "missing_layer_walked =
     \<lparr>manifests = [manifest_item [''abc/layer.tar'']],
      img = \<lparr>History = [step ''COPY . .''], History_spare = []\<rparr>,
      layers = Map.empty\<rparr>"

text \<open>
  The same with fewer and with more surviving steps than layer paths: the layer of
  the first path is not in the archive.
\<close>

definition fewer_steps_missing_archive :: archive where
  "fewer_steps_missing_archive =
     \<lparr>entries = [layer_entry ''def/layer.tar'' [regular ''/c'' 7],
                 config_entry ''config.json''
                   [empty_step ''FROM scratch'', step ''/bin/sh -c touch /a''],
                 manifest_entry [''abc/layer.tar'', ''def/layer.tar'']],
      ending = EOF\<rparr>"

definition fewer_steps_missing_walked :: walked where
  "fewer_steps_missing_walked =
     \<lparr>manifests = [manifest_item [''abc/layer.tar'', ''def/layer.tar'']],
      img = \<lparr>History = [empty_step ''FROM scratch'', step ''/bin/sh -c touch /a''],
             History_spare = []\<rparr>,
      layers = [''def/layer.tar'' \<mapsto> def_layer]\<rparr>"

definition more_steps_missing_archive :: archive where
  "more_steps_missing_archive =
     \<lparr>entries = [config_entry ''config.json''
                   [step ''/bin/sh -c touch /a'', step ''COPY . .''],
                 manifest_entry [''abc/layer.tar'']],
      ending = EOF\<rparr>"

definition more_steps_missing_walked :: walked where
  "more_steps_missing_walked =
     \<lparr>manifests = [manifest_item [''abc/layer.tar'']],
      img = \<lparr>History = [step ''/bin/sh -c touch /a'', step ''COPY . .''], History_spare = []\<rparr>,
      layers = Map.empty\<rparr>"

text \<open>The block that the layer \<^verbatim>\<open>abc/layer.tar\<close> gets with the default flags.\<close>

definition abc_block :: "line list" where
  "abc_block =
     [Blank, Rule (replicate 100 CHR ''=''), Summary 100 ''touch /a'',
      Rule (replicate 100 CHR ''=''), FileLine 100 ''/b'', FileLine 0 ''/a'']"

section \<open>Properties\<close>

subsection \<open>Auxiliary facts\<close>

lemma cmdWidth_sint:
  assumes "11 \<le> sint (lw :: goint)"
  shows "sint (lw - humanizedWidth - 4) = sint lw - 11"
proof -
  have eq: "lw - humanizedWidth - 4 = lw - 11"
    by (simp add: humanizedWidth_def)
  have up: "sint lw < 2 ^ 63"
    using sint_lt [of lw] by simp
  have "sint (lw - 11) = signed_take_bit 63 (sint lw - sint (11 :: goint))"
    by (simp add: sint_word_ariths)
  also have "sint (11 :: goint) = 11"
    by simp
  also have "signed_take_bit 63 (sint lw - 11) = sint lw - 11"
    using assms up by (intro signed_take_bit_int_eq_self) auto
  finally show ?thesis
    unfolding eq .
qed

lemma truncate_cmd_take:
  "0 \<le> sint cw \<Longrightarrow> truncate_cmd cw cmd = Inr (take (nat (sint cw)) cmd)"
  by (simp add: truncate_cmd_def)

lemma concat_replicate_single: "concat (replicate n [c]) = replicate n c"
  by (induction n) simp_all

lemma Repeat_bar:
  "0 \<le> sint n \<Longrightarrow> Repeat ''='' n = Inr (replicate (nat (sint n)) CHR ''='')"
  by (simp add: Repeat_def concat_replicate_single)

lemma Replace_zero: "Replace cmd [CHR 0x09] '' '' 0 = cmd"
  by simp

lemma file_lines_take:
  "file_lines mx j fs = map (\<lambda>f. FileLine (Size f) (Name f)) (take (nat (sint mx) - j) fs)"
proof (induction fs arbitrary: j)
  case Nil
  show ?case by simp
next
  case (Cons f fs)
  show ?case
  proof (cases "sint mx \<le> int j")
    case True
    then have "nat (sint mx) - j = 0" by simp
    with True show ?thesis by simp
  next
    case False
    then obtain d where d: "nat (sint mx) - j = Suc d" "nat (sint mx) - Suc j = d"
      by (cases "nat (sint mx) - j") auto
    with False Cons show ?thesis by simp
  qed
qed

lemma sint_differ: "(a :: int64) \<noteq> b \<Longrightarrow> sint a < sint b \<or> sint b < sint a"
  by (metis linorder_neqE signed_word_eqI)

lemma ranked_iff: "ranked a b \<longleftrightarrow> \<not> Less b a"
  using sint_differ [of "Size a" "Size b"] by (auto simp: ranked_def Less_def)

lemma ranked_trans: "ranked a b \<Longrightarrow> ranked b c \<Longrightarrow> ranked a c"
  by (auto simp: ranked_def split: if_splits)

lemma set_insert_Files: "set (insert_Files h xs) = insert h (set xs)"
  by (induction xs) auto

lemma mset_insert_Files: "mset (insert_Files h xs) = add_mset h (mset xs)"
  by (induction xs) auto

lemma mset_sort_Files: "mset (sort_Files xs) = mset xs"
  by (induction xs) (simp_all add: mset_insert_Files)

lemma sorted_insert_Files:
  "sorted_wrt ranked xs \<Longrightarrow> sorted_wrt ranked (insert_Files h xs)"
proof (induction xs)
  case Nil
  show ?case by simp
next
  case (Cons x xs)
  show ?case
  proof (cases "Less x h")
    case True
    then have "ranked x h" by (auto simp: ranked_def Less_def split: if_splits)
    with True Cons show ?thesis by (auto simp: set_insert_Files)
  next
    case False
    then have hx: "ranked h x" by (simp add: ranked_iff)
    have "\<forall>y\<in>set xs. ranked h y"
      using Cons.prems hx by (auto intro: ranked_trans)
    with False hx Cons.prems show ?thesis by simp
  qed
qed

lemma sorted_sort_Files: "sorted_wrt ranked (sort_Files xs)"
  by (induction xs) (simp_all add: sorted_insert_Files)

lemma sort_Files_sorted: "sorted_wrt ranked xs \<Longrightarrow> sort_Files xs = xs"
proof (induction xs)
  case Nil
  show ?case by simp
next
  case (Cons x xs)
  then have eq: "sort_Files xs = xs" by simp
  show ?case
  proof (cases xs)
    case Nil
    then show ?thesis by simp
  next
    case (Cons y ys)
    with Cons.prems have "ranked x y" by simp
    then have "\<not> Less y x" by (simp add: ranked_iff)
    with eq Cons show ?thesis by simp
  qed
qed

lemma sort_Files_idem: "sort_Files (sort_Files xs) = sort_Files xs"
  by (rule sort_Files_sorted) (rule sorted_sort_Files)

lemma removeEmptyLayers_shared_filter:
  "k \<le> i \<Longrightarrow> n = length arr \<Longrightarrow>
   removeEmptyLayers_shared arr k i n = take k arr @ filter (\<lambda>a. \<not> EmptyLayer a) (drop i arr)"
proof (induction arr k i n rule: removeEmptyLayers_shared.induct)
  case (1 arr k i n)
  show ?case
  proof (cases "i < n")
    case False
    with 1(4) show ?thesis by (subst removeEmptyLayers_shared.simps) simp
  next
    case True
    note lt = True
    have d: "drop i arr = arr ! i # drop (Suc i) arr"
      using lt 1(4) by (simp add: Cons_nth_drop_Suc)
    show ?thesis
    proof (cases "EmptyLayer (arr ! i)")
      case True
      have "removeEmptyLayers_shared arr k i n = removeEmptyLayers_shared arr k (Suc i) n"
        using lt True by (subst removeEmptyLayers_shared.simps) simp
      also have "\<dots> = take k arr @ filter (\<lambda>a. \<not> EmptyLayer a) (drop (Suc i) arr)"
        using 1(2)[OF lt refl _ _ 1(4)] True 1(3) by simp
      finally show ?thesis using d True by simp
    next
      case False
      have "removeEmptyLayers_shared arr k i n =
            removeEmptyLayers_shared (arr[k := arr ! i]) (Suc k) (Suc i) n"
        using lt False by (subst removeEmptyLayers_shared.simps) simp
      also have "\<dots> = take (Suc k) (arr[k := arr ! i]) @
                   filter (\<lambda>a. \<not> EmptyLayer a) (drop (Suc i) (arr[k := arr ! i]))"
        using 1(1)[OF lt refl False] 1(3,4) by simp
      also have "take (Suc k) (arr[k := arr ! i]) = take k arr @ [arr ! i]"
        using 1(3,4) lt by (simp add: take_Suc_conv_app_nth)
      also have "drop (Suc i) (arr[k := arr ! i]) = drop (Suc i) arr"
        using 1(3) by simp
      finally show ?thesis using d False by simp
    qed
  qed
qed

lemma removeEmptyLayers_filter:
  "removeEmptyLayers h old = h @ filter (\<lambda>a. \<not> EmptyLayer a) old"
  by (induction old arbitrary: h) auto

lemma same_report_refl: "same_report lys lys"
  by (simp add: same_report_def option.rel_refl)

lemma same_report_update:
  assumes "same_report lys lys0" and "lys p = Some l"
  shows "same_report (lys(p \<mapsto> l\<lparr>Files := sort_Files (Files l)\<rparr>)) lys0"
  unfolding same_report_def
proof
  fix q
  from assms(1) have q: "rel_option
      (\<lambda>l l0. LayerSize l = LayerSize l0 \<and> sort_Files (Files l) = sort_Files (Files l0))
      (lys q) (lys0 q)"
    by (simp add: same_report_def)
  show "rel_option
      (\<lambda>l l0. LayerSize l = LayerSize l0 \<and> sort_Files (Files l) = sort_Files (Files l0))
      ((lys(p \<mapsto> l\<lparr>Files := sort_Files (Files l)\<rparr>)) q) (lys0 q)"
  proof (cases "q = p")
    case False
    with q show ?thesis by simp
  next
    case True
    with q assms(2) show ?thesis
      by (cases "lys0 p") (simp_all add: sort_Files_idem)
  qed
qed

lemma same_report_Some:
  assumes "same_report lys lys0" and "lys0 p = Some l0"
  obtains l where "lys p = Some l" "LayerSize l = LayerSize l0"
    "sort_Files (Files l) = sort_Files (Files l0)"
proof -
  from assms(1) have "rel_option
      (\<lambda>l l0. LayerSize l = LayerSize l0 \<and> sort_Files (Files l) = sort_Files (Files l0))
      (lys p) (lys0 p)"
    by (simp add: same_report_def)
  with assms(2) that show thesis
    by (cases "lys p") simp_all
qed

lemma report_step:
  assumes lw: "11 \<le> sint (lineWidth cfg)"
      and cw: "cw = lineWidth cfg - humanizedWidth - 4"
      and i: "i < length ls"
      and l: "lys (ls ! i) = Some l"
      and l0: "LayerSize l = LayerSize l0" "sort_Files (Files l) = sort_Files (Files l0)"
  shows "report cfg cw ls i (action # rest) lys =
           (block cfg action l0 @
              fst (report cfg cw ls (Suc i) rest (lys(ls ! i \<mapsto> l\<lparr>Files := sort_Files (Files l)\<rparr>))),
            snd (report cfg cw ls (Suc i) rest (lys(ls ! i \<mapsto> l\<lparr>Files := sort_Files (Files l)\<rparr>))))"
proof -
  have w: "sint cw = sint (lineWidth cfg) - 11"
    unfolding cw using lw by (rule cmdWidth_sint)
  have t: "truncate_cmd cw (derive_cmd action)
             = Inr (take (nat (sint (lineWidth cfg) - 11)) (derive_cmd action))"
    using lw w by (simp add: truncate_cmd_take)
  have r: "Repeat ''='' (lineWidth cfg) = Inr (replicate (nat (sint (lineWidth cfg))) CHR ''='')"
    using lw by (intro Repeat_bar) simp
  show ?thesis
    using i l l0 by (simp add: t r block_def file_lines_take Let_def del: Replace.simps add: Replace_zero)
qed

lemma report_general:
  assumes lw: "11 \<le> sint (lineWidth cfg)"
      and cw: "cw = lineWidth cfg - humanizedWidth - 4"
  shows "same_report lys lys0 \<Longrightarrow>
         \<forall>p \<in> set (take (length hist) (drop i ls)). lys0 p \<noteq> None \<Longrightarrow>
         report cfg cw ls i hist lys =
           (concat (map (\<lambda>(a, p). block cfg a (the (lys0 p))) (zip hist (drop i ls))),
            if length hist \<le> length ls - i then Done else Panicked IndexOutOfRange)"
proof (induction hist arbitrary: i lys)
  case Nil
  show ?case by simp
next
  case (Cons a rest)
  show ?case
  proof (cases "i < length ls")
    case False
    then show ?thesis by simp
  next
    case True
    then have d: "drop i ls = ls ! i # drop (Suc i) ls"
      by (simp add: Cons_nth_drop_Suc)
    with Cons.prems(2) obtain l0 where l0: "lys0 (ls ! i) = Some l0"
      by auto
    with Cons.prems(1) obtain l where l: "lys (ls ! i) = Some l"
        "LayerSize l = LayerSize l0" "sort_Files (Files l) = sort_Files (Files l0)"
      by (rule same_report_Some)
    let ?lys = "lys(ls ! i \<mapsto> l\<lparr>Files := sort_Files (Files l)\<rparr>)"
    have rel: "same_report ?lys lys0"
      using Cons.prems(1) l(1) by (rule same_report_update)
    have pres: "\<forall>p \<in> set (take (length rest) (drop (Suc i) ls)). lys0 p \<noteq> None"
      using Cons.prems(2) d by simp
    have st: "(length rest \<le> length ls - Suc i) = (length (a # rest) \<le> length ls - i)"
      using True by auto
    have "report cfg cw ls i (a # rest) lys =
            (block cfg a l0 @ fst (report cfg cw ls (Suc i) rest ?lys),
             snd (report cfg cw ls (Suc i) rest ?lys))"
      using lw cw True l by (rule report_step)
    then show ?thesis
      using Cons.IH [OF rel pres] d l0 st by simp
  qed
qed

lemma zip_blocks:
  "map (\<lambda>(a, p). block cfg a (the (lys p))) (zip hist ls) =
   blocks cfg hist ls lys (min (length hist) (length ls))"
  by (rule nth_equalityI) (simp_all add: blocks_def)

lemmas example_defs = layer_entry_def config_entry_def doc_of_def full_config_entry_def
  full_doc_def object_entry_def manifest_item_def
  manifest_entry_def regular_def directory_def step_def empty_step_def default_flags_def abc_files_def
  abc_layer_def def_layer_def

lemmas walk_defs = start_def walk_entry_def HasSuffix_def manifest_def read_layer_def
  decode_image_def decode_elem_def zero_History_def

lemma run_report:
  assumes "walk start (entries r) (ending r) = Inr st" and "manifests st = m # ms"
  shows "run cfg (Some r) =
           report cfg (lineWidth cfg - humanizedWidth - 4) (Layers m) 0 (surviving st) (layers st)"
  using assms by (simp add: run_def surviving_def removeEmptyLayers_shared_filter)

lemma run_blocks:
  assumes walk: "walk start (entries r) (ending r) = Inr st"
      and m: "manifests st = m # ms"
      and lw: "11 \<le> sint (lineWidth cfg)"
      and pres: "\<forall>p \<in> set (take (length (surviving st)) (Layers m)). layers st p \<noteq> None"
  shows "run cfg (Some r) =
           (concat (blocks cfg (surviving st) (Layers m) (layers st)
                      (min (length (surviving st)) (length (Layers m)))),
            if length (surviving st) \<le> length (Layers m) then Done
            else Panicked IndexOutOfRange)"
proof -
  have "report cfg (lineWidth cfg - humanizedWidth - 4) (Layers m) 0 (surviving st) (layers st) =
          (concat (map (\<lambda>(a, p). block cfg a (the (layers st p)))
                     (zip (surviving st) (drop 0 (Layers m)))),
           if length (surviving st) \<le> length (Layers m) - 0 then Done
           else Panicked IndexOutOfRange)"
    using lw refl same_report_refl
  proof (rule report_general)
    show "\<forall>p \<in> set (take (length (surviving st)) (drop 0 (Layers m))). layers st p \<noteq> None"
      using pres by simp
  qed
  then show ?thesis
    by (simp add: run_report [OF walk m] zip_blocks)
qed

lemma example_walk: "walk start (entries example_archive) (ending example_archive) = Inr example_walked"
  by (simp add: example_archive_def example_walked_def example_defs walk_defs)

lemma fewer_walk: "walk start (entries fewer_steps_archive) (ending fewer_steps_archive) = Inr fewer_steps_walked"
  by (simp add: fewer_steps_archive_def fewer_steps_walked_def example_defs walk_defs)

lemma more_walk: "walk start (entries more_steps_archive) (ending more_steps_archive) = Inr more_steps_walked"
  by (simp add: more_steps_archive_def more_steps_walked_def example_defs walk_defs)

lemma fewer_surviving: "surviving fewer_steps_walked = [step ''/bin/sh -c touch /a'']"
  by (simp add: fewer_steps_walked_def surviving_def empty_step_def step_def)

lemma more_surviving: "surviving more_steps_walked = [step ''/bin/sh -c touch /a'', step ''COPY . .'']"
  by (simp add: more_steps_walked_def surviving_def step_def)

lemma abc_block_eq: "block default_flags (step ''/bin/sh -c touch /a'') abc_layer = abc_block"
  by (simp add: block_def abc_block_def example_defs derive_cmd_def Less_def)


lemma report_fails:
  "length ls - i < length hist \<Longrightarrow> \<exists>p. snd (report cfg cw ls i hist lys) = Panicked p"
proof (induction hist arbitrary: i lys)
  case Nil
  then show ?case by simp
next
  case (Cons a rest)
  show ?case
  proof (cases "length ls \<le> i")
    case True
    then show ?thesis by simp
  next
    case False
    with Cons.prems have "length ls - Suc i < length rest" by simp
    then have "\<exists>p. snd (report cfg cw ls (Suc i) rest lys') = Panicked p" for lys'
      by (rule Cons.IH)
    with False show ?thesis
      by (simp add: Let_def split: sum.splits option.splits del: Replace.simps)
  qed
qed

lemma missing_layer_walk:
  "walk start (entries missing_layer_archive) (ending missing_layer_archive)
     = Inr missing_layer_walked"
  by (simp add: missing_layer_archive_def missing_layer_walked_def example_defs walk_defs)

lemma fewer_missing_walk:
  "walk start (entries fewer_steps_missing_archive) (ending fewer_steps_missing_archive)
     = Inr fewer_steps_missing_walked"
  by (simp add: fewer_steps_missing_archive_def fewer_steps_missing_walked_def example_defs
      walk_defs)

lemma more_missing_walk:
  "walk start (entries more_steps_missing_archive) (ending more_steps_missing_archive)
     = Inr more_steps_missing_walked"
  by (simp add: more_steps_missing_archive_def more_steps_missing_walked_def example_defs
      walk_defs)

lemma two_layers_walk:
  "walk start (entries two_layers_archive) (ending two_layers_archive) = Inr two_layers_walked"
  by (simp add: two_layers_archive_def two_layers_walked_def example_defs walk_defs)

lemma report_missing_layer:
  assumes "i < length ls"
      and "lys (ls ! i) = None"
      and "11 \<le> sint (lineWidth cfg)"
  shows "report cfg (lineWidth cfg - humanizedWidth - 4) ls i (action # rest) lys =
           ([Blank, Rule (replicate (nat (sint (lineWidth cfg))) CHR ''='')],
            Panicked NilDereference)"
proof -
  have w: "sint (lineWidth cfg - humanizedWidth - 4) = sint (lineWidth cfg) - 11"
    using assms(3) by (rule cmdWidth_sint)
  have t: "truncate_cmd (lineWidth cfg - humanizedWidth - 4) (derive_cmd action)
             = Inr (take (nat (sint (lineWidth cfg) - 11)) (derive_cmd action))"
    using assms(3) w by (simp add: truncate_cmd_take)
  have r: "Repeat ''='' (lineWidth cfg) = Inr (replicate (nat (sint (lineWidth cfg))) CHR ''='')"
    using assms(3) by (intro Repeat_bar) simp
  show ?thesis
    using assms(1,2) by (simp add: t r)
qed

lemma report_negative_width:
  assumes "i < length ls" and "sint cw < 0"
  shows "report cfg cw ls i (action # rest) lys = ([], Panicked SliceBounds)"
  using assms by (simp add: truncate_cmd_def)

lemma missing_layer_run:
  "run default_flags (Some missing_layer_archive) =
     ([Blank, Rule (replicate 100 CHR ''='')], Panicked NilDereference)"
proof -
  have m: "manifests missing_layer_walked = manifest_item [''abc/layer.tar''] # []"
    by (simp add: missing_layer_walked_def)
  have s: "surviving missing_layer_walked = [step ''COPY . .'']"
    by (simp add: missing_layer_walked_def surviving_def step_def)
  have "report default_flags (lineWidth default_flags - humanizedWidth - 4)
          (Layers (manifest_item [''abc/layer.tar''])) 0 (step ''COPY . .'' # [])
          (layers missing_layer_walked) =
           ([Blank, Rule (replicate (nat (sint (lineWidth default_flags))) CHR ''='')],
            Panicked NilDereference)"
    by (rule report_missing_layer)
       (simp_all add: manifest_item_def missing_layer_walked_def default_flags_def)
  then show ?thesis
    unfolding run_report [OF missing_layer_walk m] s by (simp add: default_flags_def)
qed

lemma fewer_missing_run:
  "run default_flags (Some fewer_steps_missing_archive) =
     ([Blank, Rule (replicate 100 CHR ''='')], Panicked NilDereference)"
proof -
  have m: "manifests fewer_steps_missing_walked
             = manifest_item [''abc/layer.tar'', ''def/layer.tar''] # []"
    by (simp add: fewer_steps_missing_walked_def)
  have s: "surviving fewer_steps_missing_walked = [step ''/bin/sh -c touch /a'']"
    by (simp add: fewer_steps_missing_walked_def surviving_def step_def empty_step_def)
  have "report default_flags (lineWidth default_flags - humanizedWidth - 4)
          (Layers (manifest_item [''abc/layer.tar'', ''def/layer.tar''])) 0
          (step ''/bin/sh -c touch /a'' # []) (layers fewer_steps_missing_walked) =
           ([Blank, Rule (replicate (nat (sint (lineWidth default_flags))) CHR ''='')],
            Panicked NilDereference)"
    by (rule report_missing_layer)
       (simp_all add: manifest_item_def fewer_steps_missing_walked_def default_flags_def)
  then show ?thesis
    unfolding run_report [OF fewer_missing_walk m] s by (simp add: default_flags_def)
qed

lemma more_missing_run:
  "run default_flags (Some more_steps_missing_archive) =
     ([Blank, Rule (replicate 100 CHR ''='')], Panicked NilDereference)"
proof -
  have m: "manifests more_steps_missing_walked = manifest_item [''abc/layer.tar''] # []"
    by (simp add: more_steps_missing_walked_def)
  have s: "surviving more_steps_missing_walked = [step ''/bin/sh -c touch /a'', step ''COPY . .'']"
    by (simp add: more_steps_missing_walked_def surviving_def step_def)
  have "report default_flags (lineWidth default_flags - humanizedWidth - 4)
          (Layers (manifest_item [''abc/layer.tar''])) 0
          (step ''/bin/sh -c touch /a'' # [step ''COPY . .''])
          (layers more_steps_missing_walked) =
           ([Blank, Rule (replicate (nat (sint (lineWidth default_flags))) CHR ''='')],
            Panicked NilDereference)"
    by (rule report_missing_layer)
       (simp_all add: manifest_item_def more_steps_missing_walked_def default_flags_def)
  then show ?thesis
    unfolding run_report [OF more_missing_walk m] s by (simp add: default_flags_def)
qed

lemma fewer_narrow_run:
  "run \<lparr>maxFiles = 10, lineWidth = 10\<rparr> (Some fewer_steps_archive) = ([], Panicked SliceBounds)"
proof -
  have m: "manifests fewer_steps_walked
             = manifest_item [''abc/layer.tar'', ''def/layer.tar''] # []"
    by (simp add: fewer_steps_walked_def)
  show ?thesis
    unfolding run_report [OF fewer_walk m] fewer_surviving
    by (rule report_negative_width) (simp_all add: manifest_item_def humanizedWidth_def)
qed

lemma example_narrow_run:
  "run \<lparr>maxFiles = 10, lineWidth = 10\<rparr> (Some example_archive) = ([], Panicked SliceBounds)"
proof -
  have m: "manifests example_walked = manifest_item [''abc/layer.tar''] # []"
    by (simp add: example_walked_def)
  have s: "surviving example_walked = [step ''/bin/sh -c touch /a'']"
    by (simp add: example_walked_def surviving_def empty_step_def step_def)
  show ?thesis
    unfolding run_report [OF example_walk m] s
    by (rule report_negative_width) (simp_all add: manifest_item_def humanizedWidth_def)
qed

lemma abc_copy_block:
  "block default_flags (step ''COPY . .'') abc_layer =
     [Blank, Rule (replicate 100 CHR ''=''), Summary 100 ''COPY . .'',
      Rule (replicate 100 CHR ''=''), FileLine 100 ''/b'', FileLine 0 ''/a'']"
  by (simp add: block_def example_defs derive_cmd_def Less_def)

lemma def_touch_block:
  "block default_flags (step ''/bin/sh -c touch /a'') def_layer =
     [Blank, Rule (replicate 100 CHR ''=''), Summary 7 ''touch /a'',
      Rule (replicate 100 CHR ''=''), FileLine 7 ''/c'']"
  by (simp add: block_def example_defs derive_cmd_def Less_def)

subsection \<open>Steps and layers are paired by position\<close>

text \<open>
  C2 says that every archive whose manifest has one item with \<open>L\<close> layer paths and
  which has \<open>L\<close> surviving steps gives a report of exactly \<open>L\<close> blocks. Two such
  archives with \<open>L = 1\<close> give none. When the layer path names no layer of the
  archive, the lookup yields \<^verbatim>\<open>nil\<close> and the run panics after the blank line and the
  first rule. And with \<^verbatim>\<open>-l 10\<close> the example archive of the specification, whose layer
  is there, makes the run panic at \<^verbatim>\<open>cmd[:cmdWidth]\<close> before it prints anything.
\<close>

theorem pairing_needs_layers_and_width:
  "walk start (entries missing_layer_archive) (ending missing_layer_archive)
     = Inr missing_layer_walked \<and>
   manifests missing_layer_walked = [manifest_item [''abc/layer.tar'']] \<and>
   length (Layers (manifest_item [''abc/layer.tar''])) = 1 \<and>
   length (surviving missing_layer_walked) = 1 \<and>
   run default_flags (Some missing_layer_archive) =
     ([Blank, Rule (replicate 100 CHR ''='')], Panicked NilDereference) \<and>
   walk start (entries example_archive) (ending example_archive) = Inr example_walked \<and>
   manifests example_walked = [manifest_item [''abc/layer.tar'']] \<and>
   length (surviving example_walked) = 1 \<and>
   layers example_walked ''abc/layer.tar'' = Some abc_layer \<and>
   run \<lparr>maxFiles = 10, lineWidth = 10\<rparr> (Some example_archive) = ([], Panicked SliceBounds)"
proof -
  have "manifests missing_layer_walked = [manifest_item [''abc/layer.tar'']]"
    by (simp add: missing_layer_walked_def)
  moreover have "length (Layers (manifest_item [''abc/layer.tar''])) = 1"
    by (simp add: manifest_item_def)
  moreover have "length (surviving missing_layer_walked) = 1"
    by (simp add: missing_layer_walked_def surviving_def step_def)
  moreover have "manifests example_walked = [manifest_item [''abc/layer.tar'']]"
    by (simp add: example_walked_def)
  moreover have "length (surviving example_walked) = 1"
    by (simp add: example_walked_def surviving_def empty_step_def step_def)
  moreover have "layers example_walked ''abc/layer.tar'' = Some abc_layer"
    by (simp add: example_walked_def)
  ultimately show ?thesis
    using missing_layer_walk missing_layer_run example_walk example_narrow_run by simp
qed

text \<open>
  C2, amended. When the walk has read the archive, the manifest has exactly one item
  with \<open>L\<close> layer paths, \<open>L\<close> history steps are not marked empty, each of the layer
  paths names a layer that the walk has seen, and the line width is at least 11, the
  report consists of exactly \<open>L\<close> blocks in the order of the manifest's layer paths:
  block \<open>i\<close> is that of the \<open>i\<close>-th surviving step (the steps marked empty filtered
  out, the order of the others kept) and of the layer stored under the \<open>i\<close>-th layer
  path. In the witness the manifest lists two layers in the other order than the
  archive holds them, and a step marked empty stands between the two others.
\<close>

theorem report_one_block_per_layer:
  assumes "walk start (entries r) (ending r) = Inr st"
      and "manifests st = [m]"
      and "length (Layers m) = length (surviving st)"
      and "\<forall>p \<in> set (Layers m). layers st p \<noteq> None"
      and "11 \<le> sint (lineWidth cfg)"
  shows "run cfg (Some r) =
           (concat (blocks cfg (surviving st) (Layers m) (layers st) (length (Layers m))), Done)
         \<and> length (blocks cfg (surviving st) (Layers m) (layers st) (length (Layers m)))
             = length (Layers m)"
proof -
  have "\<forall>p \<in> set (take (length (surviving st)) (Layers m)). layers st p \<noteq> None"
    using assms(3,4) by simp
  with assms(1,2,5) have "run cfg (Some r) =
      (concat (blocks cfg (surviving st) (Layers m) (layers st)
                 (min (length (surviving st)) (length (Layers m)))),
       if length (surviving st) \<le> length (Layers m) then Done else Panicked IndexOutOfRange)"
    by (rule run_blocks)
  with assms(3) show ?thesis
    by (simp add: blocks_def)
qed

theorem report_one_block_per_layer_witness:
  "walk start (entries two_layers_archive) (ending two_layers_archive) = Inr two_layers_walked \<and>
   manifests two_layers_walked = [manifest_item [''def/layer.tar'', ''abc/layer.tar'']] \<and>
   Layers (manifest_item [''def/layer.tar'', ''abc/layer.tar''])
     = [''def/layer.tar'', ''abc/layer.tar''] \<and>
   surviving two_layers_walked = [step ''/bin/sh -c touch /a'', step ''COPY . .''] \<and>
   layers two_layers_walked ''def/layer.tar'' = Some def_layer \<and>
   layers two_layers_walked ''abc/layer.tar'' = Some abc_layer \<and>
   11 \<le> sint (lineWidth default_flags) \<and>
   run default_flags (Some two_layers_archive) = (two_layers_report, Done)"
proof -
  have h1: "walk start (entries two_layers_archive) (ending two_layers_archive)
              = Inr two_layers_walked"
    by (rule two_layers_walk)
  have h2: "manifests two_layers_walked = [manifest_item [''def/layer.tar'', ''abc/layer.tar'']]"
    by (simp add: two_layers_walked_def)
  have ls: "Layers (manifest_item [''def/layer.tar'', ''abc/layer.tar''])
              = [''def/layer.tar'', ''abc/layer.tar'']"
    by (simp add: manifest_item_def)
  have s: "surviving two_layers_walked = [step ''/bin/sh -c touch /a'', step ''COPY . .'']"
    by (simp add: two_layers_walked_def surviving_def empty_step_def step_def)
  have h3: "length (Layers (manifest_item [''def/layer.tar'', ''abc/layer.tar'']))
              = length (surviving two_layers_walked)"
    by (simp add: ls s)
  have d: "layers two_layers_walked ''def/layer.tar'' = Some def_layer"
    by (simp add: two_layers_walked_def)
  have a: "layers two_layers_walked ''abc/layer.tar'' = Some abc_layer"
    by (simp add: two_layers_walked_def)
  have h4: "\<forall>p \<in> set (Layers (manifest_item [''def/layer.tar'', ''abc/layer.tar''])).
              layers two_layers_walked p \<noteq> None"
    by (simp add: ls d a)
  have h5: "11 \<le> sint (lineWidth default_flags)"
    by (simp add: default_flags_def)
  have u: "[0..<2] = [0, Suc 0]"
    by (simp add: upt_rec)
  have "run default_flags (Some two_layers_archive) = (two_layers_report, Done)"
    using report_one_block_per_layer [OF h1 h2 h3 h4 h5]
    by (simp add: blocks_def ls s u d a def_touch_block abc_copy_block two_layers_report_def)
  with h1 h2 ls s d a h5 show ?thesis
    by simp
qed

text \<open>
  C3 says that every input with fewer surviving steps than layer paths makes the run
  complete with one block per step, and every input with more makes it fail with an
  out-of-range access. With one surviving step and two layer paths the run panics
  all the same for a line width of 10 (at \<^verbatim>\<open>cmd[:cmdWidth]\<close>, before any output) and
  when the first layer path names no layer of the archive (a \<^verbatim>\<open>nil\<close> dereference
  after two lines). With two surviving steps and one layer path that names no layer
  the run fails with that \<^verbatim>\<open>nil\<close> dereference at the first step and never reaches
  the index out of range.
\<close>

theorem mismatch_outcome_needs_layers_and_width:
  "walk start (entries fewer_steps_archive) (ending fewer_steps_archive) = Inr fewer_steps_walked \<and>
   manifests fewer_steps_walked = [manifest_item [''abc/layer.tar'', ''def/layer.tar'']] \<and>
   length (surviving fewer_steps_walked) = 1 \<and>
   length (Layers (manifest_item [''abc/layer.tar'', ''def/layer.tar''])) = 2 \<and>
   run \<lparr>maxFiles = 10, lineWidth = 10\<rparr> (Some fewer_steps_archive) = ([], Panicked SliceBounds) \<and>
   walk start (entries fewer_steps_missing_archive) (ending fewer_steps_missing_archive)
     = Inr fewer_steps_missing_walked \<and>
   manifests fewer_steps_missing_walked
     = [manifest_item [''abc/layer.tar'', ''def/layer.tar'']] \<and>
   length (surviving fewer_steps_missing_walked) = 1 \<and>
   run default_flags (Some fewer_steps_missing_archive) =
     ([Blank, Rule (replicate 100 CHR ''='')], Panicked NilDereference) \<and>
   walk start (entries more_steps_missing_archive) (ending more_steps_missing_archive)
     = Inr more_steps_missing_walked \<and>
   manifests more_steps_missing_walked = [manifest_item [''abc/layer.tar'']] \<and>
   length (surviving more_steps_missing_walked) = 2 \<and>
   length (Layers (manifest_item [''abc/layer.tar''])) = 1 \<and>
   run default_flags (Some more_steps_missing_archive) =
     ([Blank, Rule (replicate 100 CHR ''='')], Panicked NilDereference)"
proof -
  have "manifests fewer_steps_walked = [manifest_item [''abc/layer.tar'', ''def/layer.tar'']]"
    by (simp add: fewer_steps_walked_def)
  moreover have "length (surviving fewer_steps_walked) = 1"
    by (simp add: fewer_surviving)
  moreover have "length (Layers (manifest_item [''abc/layer.tar'', ''def/layer.tar''])) = 2"
    by (simp add: manifest_item_def)
  moreover have "manifests fewer_steps_missing_walked
     = [manifest_item [''abc/layer.tar'', ''def/layer.tar'']]"
    by (simp add: fewer_steps_missing_walked_def)
  moreover have "length (surviving fewer_steps_missing_walked) = 1"
    by (simp add: fewer_steps_missing_walked_def surviving_def step_def empty_step_def)
  moreover have "manifests more_steps_missing_walked = [manifest_item [''abc/layer.tar'']]"
    by (simp add: more_steps_missing_walked_def)
  moreover have "length (surviving more_steps_missing_walked) = 2"
    by (simp add: more_steps_missing_walked_def surviving_def step_def)
  moreover have "length (Layers (manifest_item [''abc/layer.tar''])) = 1"
    by (simp add: manifest_item_def)
  ultimately show ?thesis
    using fewer_walk fewer_narrow_run fewer_missing_walk fewer_missing_run
      more_missing_walk more_missing_run
    by simp
qed

text \<open>
  C3, amended. Let the layer paths that the loop looks up name layers seen in the
  walk, and let the line width be at least 11. With fewer surviving steps than layer
  paths the run completes and prints one block per surviving step, the later layer
  paths being left alone; with more surviving steps than layer paths the run fails
  with the index out of range at \<^verbatim>\<open>manifest.Layers[i]\<close>, after the blocks of all the
  layer paths. Without the two conditions a run with more surviving steps than layer
  paths still always ends in a panic. Nothing is cut or padded.
\<close>

theorem fewer_or_more_steps_than_layers:
  assumes "walk start (entries r) (ending r) = Inr st"
      and "manifests st = m # ms"
  shows "(length (surviving st) < length (Layers m) \<and> 11 \<le> sint (lineWidth cfg) \<and>
          (\<forall>p \<in> set (take (length (surviving st)) (Layers m)). layers st p \<noteq> None) \<longrightarrow>
            run cfg (Some r) =
              (concat (blocks cfg (surviving st) (Layers m) (layers st) (length (surviving st))),
               Done))
       \<and> (length (Layers m) < length (surviving st) \<longrightarrow>
            (\<exists>p. snd (run cfg (Some r)) = Panicked p))
       \<and> (length (Layers m) < length (surviving st) \<and> 11 \<le> sint (lineWidth cfg) \<and>
          (\<forall>p \<in> set (Layers m). layers st p \<noteq> None) \<longrightarrow>
            run cfg (Some r) =
              (concat (blocks cfg (surviving st) (Layers m) (layers st) (length (Layers m))),
               Panicked IndexOutOfRange))"
proof (intro conjI impI)
  assume a: "length (surviving st) < length (Layers m) \<and> 11 \<le> sint (lineWidth cfg) \<and>
          (\<forall>p \<in> set (take (length (surviving st)) (Layers m)). layers st p \<noteq> None)"
  then have "run cfg (Some r) =
      (concat (blocks cfg (surviving st) (Layers m) (layers st)
                 (min (length (surviving st)) (length (Layers m)))),
       if length (surviving st) \<le> length (Layers m) then Done else Panicked IndexOutOfRange)"
    by (intro run_blocks [OF assms]) simp_all
  with a show "run cfg (Some r) =
      (concat (blocks cfg (surviving st) (Layers m) (layers st) (length (surviving st))), Done)"
    by (simp add: min_def)
next
  assume "length (Layers m) < length (surviving st)"
  then have "length (Layers m) - 0 < length (surviving st)"
    by simp
  then have "\<exists>p. snd (report cfg (lineWidth cfg - humanizedWidth - 4) (Layers m) 0
                     (surviving st) (layers st)) = Panicked p"
    by (rule report_fails)
  then show "\<exists>p. snd (run cfg (Some r)) = Panicked p"
    by (simp add: run_report [OF assms])
next
  assume a: "length (Layers m) < length (surviving st) \<and> 11 \<le> sint (lineWidth cfg) \<and>
          (\<forall>p \<in> set (Layers m). layers st p \<noteq> None)"
  then have "\<forall>p \<in> set (take (length (surviving st)) (Layers m)). layers st p \<noteq> None"
    by simp
  with a have "run cfg (Some r) =
      (concat (blocks cfg (surviving st) (Layers m) (layers st)
                 (min (length (surviving st)) (length (Layers m)))),
       if length (surviving st) \<le> length (Layers m) then Done else Panicked IndexOutOfRange)"
    by (intro run_blocks [OF assms]) simp_all
  with a show "run cfg (Some r) =
      (concat (blocks cfg (surviving st) (Layers m) (layers st) (length (Layers m))),
       Panicked IndexOutOfRange)"
    by (simp add: min_def)
qed

theorem fewer_or_more_steps_than_layers_witness:
  "walk start (entries fewer_steps_archive) (ending fewer_steps_archive) = Inr fewer_steps_walked \<and>
   manifests fewer_steps_walked = [manifest_item [''abc/layer.tar'', ''def/layer.tar'']] \<and>
   length (surviving fewer_steps_walked)
     < length (Layers (manifest_item [''abc/layer.tar'', ''def/layer.tar''])) \<and>
   layers fewer_steps_walked ''abc/layer.tar'' = Some abc_layer \<and>
   run default_flags (Some fewer_steps_archive) = (abc_block, Done) \<and>
   walk start (entries more_steps_archive) (ending more_steps_archive) = Inr more_steps_walked \<and>
   manifests more_steps_walked = [manifest_item [''abc/layer.tar'']] \<and>
   length (Layers (manifest_item [''abc/layer.tar''])) < length (surviving more_steps_walked) \<and>
   layers more_steps_walked ''abc/layer.tar'' = Some abc_layer \<and>
   11 \<le> sint (lineWidth default_flags) \<and>
   run default_flags (Some more_steps_archive) = (abc_block, Panicked IndexOutOfRange)"
proof -
  have f1: "walk start (entries fewer_steps_archive) (ending fewer_steps_archive)
              = Inr fewer_steps_walked"
    by (rule fewer_walk)
  have f2: "manifests fewer_steps_walked = [manifest_item [''abc/layer.tar'', ''def/layer.tar'']]"
    by (simp add: fewer_steps_walked_def)
  have f3: "length (surviving fewer_steps_walked)
              < length (Layers (manifest_item [''abc/layer.tar'', ''def/layer.tar'']))"
    by (simp add: fewer_surviving manifest_item_def)
  have f4: "layers fewer_steps_walked ''abc/layer.tar'' = Some abc_layer"
    by (simp add: fewer_steps_walked_def)
  have w: "11 \<le> sint (lineWidth default_flags)"
    by (simp add: default_flags_def)
  have f5: "\<forall>p \<in> set (take (length (surviving fewer_steps_walked))
                     (Layers (manifest_item [''abc/layer.tar'', ''def/layer.tar'']))).
              layers fewer_steps_walked p \<noteq> None"
    by (simp add: fewer_surviving manifest_item_def f4)
  have fr: "run default_flags (Some fewer_steps_archive) = (abc_block, Done)"
    using fewer_or_more_steps_than_layers [OF f1 f2, of default_flags] f3 f5 w
    by (simp add: blocks_def fewer_surviving manifest_item_def f4 abc_block_eq)
  have m1: "walk start (entries more_steps_archive) (ending more_steps_archive)
              = Inr more_steps_walked"
    by (rule more_walk)
  have m2: "manifests more_steps_walked = [manifest_item [''abc/layer.tar'']]"
    by (simp add: more_steps_walked_def)
  have m3: "length (Layers (manifest_item [''abc/layer.tar''])) < length (surviving more_steps_walked)"
    by (simp add: more_surviving manifest_item_def)
  have m4: "layers more_steps_walked ''abc/layer.tar'' = Some abc_layer"
    by (simp add: more_steps_walked_def)
  have m5: "\<forall>p \<in> set (Layers (manifest_item [''abc/layer.tar''])). layers more_steps_walked p \<noteq> None"
    by (simp add: manifest_item_def m4)
  have mr: "run default_flags (Some more_steps_archive) = (abc_block, Panicked IndexOutOfRange)"
    using fewer_or_more_steps_than_layers [OF m1 m2, of default_flags] m3 m5 w
    by (simp add: blocks_def more_surviving manifest_item_def m4 abc_block_eq)
  show ?thesis
    using f1 f2 f3 f4 fr m1 m2 m3 m4 w mr by simp
qed



subsection \<open>A mismatch between steps and layer paths\<close>




subsection \<open>The command of a step\<close>

lemma Index_first:
  "s = a @ sep @ b \<Longrightarrow> (\<forall>a' b'. s = a' @ sep @ b' \<longrightarrow> length a \<le> length a') \<Longrightarrow>
   Index s sep = Some (length a)"
proof (induction s arbitrary: a)
  case Nil
  then show ?case by simp
next
  case (Cons c cs)
  show ?case
  proof (cases "take (length sep) (c # cs) = sep")
    case True
    then have "c # cs = [] @ sep @ drop (length sep) (c # cs)"
      by (metis append_Nil append_take_drop_id)
    with Cons.prems(2) have "length a \<le> length ([] :: string)"
      by blast
    with True show ?thesis by simp
  next
    case False
    have "a \<noteq> []"
    proof
      assume "a = []"
      with Cons.prems(1) have "take (length sep) (c # cs) = sep" by simp
      with False show False by simp
    qed
    then obtain a2 where a: "a = c # a2" and cs: "cs = a2 @ sep @ b"
      using Cons.prems(1) by (cases a) auto
    have "\<forall>a' b'. cs = a' @ sep @ b' \<longrightarrow> length a2 \<le> length a'"
    proof (intro allI impI)
      fix a' b'
      assume "cs = a' @ sep @ b'"
      then have "c # cs = (c # a') @ sep @ b'" by simp
      with Cons.prems(2) have "length a \<le> length (c # a')" by blast
      with a show "length a2 \<le> length a'" by simp
    qed
    with cs have "Index cs sep = Some (length a2)"
      by (rule Cons.IH)
    with False a show ?thesis by simp
  qed
qed

lemma Index_finds: "\<exists>i. Index (a @ sep @ b) sep = Some i"
proof (induction a)
  case Nil
  show ?case
  proof (cases "sep @ b")
    case Nil
    then show ?thesis by simp
  next
    case (Cons c cs)
    have "take (length sep) (sep @ b) = sep" by simp
    with Cons have "take (length sep) (c # cs) = sep" by simp
    with Cons show ?thesis by simp
  qed
next
  case (Cons c a)
  then show ?case by auto
qed

lemma Index_None:
  assumes "Index s sep = None"
  shows "\<nexists>a b. s = a @ sep @ b"
proof
  assume "\<exists>a b. s = a @ sep @ b"
  then obtain a b where "s = a @ sep @ b" by blast
  with Index_finds [of a sep b] assms show False by simp
qed

lemma Index_Some:
  "Index s sep = Some i \<Longrightarrow> s = take i s @ sep @ drop (i + length sep) s"
proof (induction s arbitrary: i)
  case Nil
  then show ?case by (simp split: if_splits)
next
  case (Cons c cs)
  show ?case
  proof (cases "take (length sep) (c # cs) = sep")
    case True
    with Cons.prems have "i = 0" by simp
    with True show ?thesis
      by (metis add_0 append_Nil append_take_drop_id take0)
  next
    case False
    with Cons.prems obtain j where j: "Index cs sep = Some j" "i = Suc j"
      by auto
    from Cons.IH [OF j(1)] j(2) show ?thesis by simp
  qed
qed

lemma SplitN_2:
  assumes "sep \<noteq> []"
  shows "SplitN s sep 2 =
           (case Index s sep of
              None \<Rightarrow> [s]
            | Some i \<Rightarrow> [take i s, drop (i + length sep) s])"
proof -
  from assms obtain c cs where sep: "sep = c # cs"
    by (cases sep) auto
  show ?thesis
  proof (cases s)
    case Nil
    then show ?thesis by (simp add: sep)
  next
    case (Cons x xs)
    have one: "nat 2 - 1 = Suc 0" by simp
    have "SplitN s sep 2 = genSplit (Suc 0) s sep"
      unfolding sep by (simp only: SplitN.simps one) (simp add: Cons)
    then show ?thesis
      by (simp split: option.splits del: Index.simps)
  qed
qed

lemma derive_cmd_Index:
  "derive_cmd action =
     (case Index (CreatedBy action) ''/bin/sh -c '' of
        None \<Rightarrow> CreatedBy action
      | Some i \<Rightarrow> drop (i + length ''/bin/sh -c '') (CreatedBy action))"
proof -
  have "SplitN (CreatedBy action) ''/bin/sh -c '' 2 =
          (case Index (CreatedBy action) ''/bin/sh -c '' of
             None \<Rightarrow> [CreatedBy action]
           | Some i \<Rightarrow> [take i (CreatedBy action),
                         drop (i + length ''/bin/sh -c '') (CreatedBy action)])"
    by (rule SplitN_2) simp
  then show ?thesis
    by (simp add: derive_cmd_def split: option.splits del: Index.simps SplitN.simps)
qed

text \<open>
  C5. When the string \<^verbatim>\<open>createdBy\<close> contains the marker \<^verbatim>\<open>/bin/sh -c \<close>, the command
  is everything after its first occurrence (\<open>a\<close> is the text before the first
  occurrence when no occurrence starts earlier, and \<open>b\<close> the text after it);
  otherwise the command is the whole string. The witness has the two examples of the
  specification and a string with two occurrences of the marker.
\<close>

theorem derive_cmd_after_first_marker:
  "(CreatedBy action = a @ ''/bin/sh -c '' @ b \<and>
      (\<forall>a' b'. CreatedBy action = a' @ ''/bin/sh -c '' @ b' \<longrightarrow> length a \<le> length a')
      \<longrightarrow> derive_cmd action = b)
   \<and> ((\<nexists>a b. CreatedBy action = a @ ''/bin/sh -c '' @ b)
      \<longrightarrow> derive_cmd action = CreatedBy action)"
proof (intro conjI impI)
  assume h: "CreatedBy action = a @ ''/bin/sh -c '' @ b \<and>
      (\<forall>a' b'. CreatedBy action = a' @ ''/bin/sh -c '' @ b' \<longrightarrow> length a \<le> length a')"
  then have "Index (CreatedBy action) ''/bin/sh -c '' = Some (length a)"
    by (intro Index_first) simp_all
  with h show "derive_cmd action = b"
    by (simp add: derive_cmd_Index)
next
  assume n: "\<nexists>a b. CreatedBy action = a @ ''/bin/sh -c '' @ b"
  have "Index (CreatedBy action) ''/bin/sh -c '' = None"
  proof (cases "Index (CreatedBy action) ''/bin/sh -c ''")
    case None
    then show ?thesis .
  next
    case (Some i)
    from Index_Some [OF this] n show ?thesis by blast
  qed
  then show "derive_cmd action = CreatedBy action"
    by (simp add: derive_cmd_Index)
qed

theorem derive_cmd_after_first_marker_witness:
  "CreatedBy (step ''/bin/sh -c echo hi'') = [] @ ''/bin/sh -c '' @ ''echo hi'' \<and>
   derive_cmd (step ''/bin/sh -c echo hi'') = ''echo hi'' \<and>
   CreatedBy (step ''#/bin/sh -c ls /bin/sh -c '') = ''#'' @ ''/bin/sh -c '' @ ''ls /bin/sh -c '' \<and>
   derive_cmd (step ''#/bin/sh -c ls /bin/sh -c '') = ''ls /bin/sh -c '' \<and>
   derive_cmd (step ''COPY . .'') = ''COPY . .''"
proof -
  have e: "CreatedBy (step ''/bin/sh -c echo hi'') = [] @ ''/bin/sh -c '' @ ''echo hi''"
    by (simp add: step_def)
  have "\<forall>a' b'. CreatedBy (step ''/bin/sh -c echo hi'') = a' @ ''/bin/sh -c '' @ b'
          \<longrightarrow> length ([] :: string) \<le> length a'"
    by simp
  with e have 1: "derive_cmd (step ''/bin/sh -c echo hi'') = ''echo hi''"
    using derive_cmd_after_first_marker [of "step ''/bin/sh -c echo hi''" "[]" "''echo hi''"]
    by blast
  have r: "CreatedBy (step ''#/bin/sh -c ls /bin/sh -c '')
             = ''#'' @ ''/bin/sh -c '' @ ''ls /bin/sh -c ''"
    by (simp add: step_def)
  have "\<forall>a' b'. CreatedBy (step ''#/bin/sh -c ls /bin/sh -c '') = a' @ ''/bin/sh -c '' @ b'
          \<longrightarrow> length ''#'' \<le> length a'"
  proof (intro allI impI)
    fix a' b'
    assume "CreatedBy (step ''#/bin/sh -c ls /bin/sh -c '') = a' @ ''/bin/sh -c '' @ b'"
    then have eq: "''#/bin/sh -c ls /bin/sh -c '' = a' @ ''/bin/sh -c '' @ b'"
      by (simp add: step_def)
    then show "length ''#'' \<le> length a'"
      by (cases a') auto
  qed
  with r have 2: "derive_cmd (step ''#/bin/sh -c ls /bin/sh -c '') = ''ls /bin/sh -c ''"
    using derive_cmd_after_first_marker
      [of "step ''#/bin/sh -c ls /bin/sh -c ''" "''#''" "''ls /bin/sh -c ''"]
    by blast
  have "\<nexists>a b. CreatedBy (step ''COPY . .'') = a @ ''/bin/sh -c '' @ b"
  proof
    assume "\<exists>a b. CreatedBy (step ''COPY . .'') = a @ ''/bin/sh -c '' @ b"
    then obtain a b where "''COPY . .'' = a @ ''/bin/sh -c '' @ b"
      by (auto simp: step_def)
    then have "length ''COPY . .'' = length (a @ ''/bin/sh -c '' @ b)"
      by (rule arg_cong)
    then show False by simp
  qed
  then have 3: "derive_cmd (step ''COPY . .'') = CreatedBy (step ''COPY . .'')"
    using derive_cmd_after_first_marker [of "step ''COPY . .''"] by blast
  show ?thesis
    using e 1 r 2 3 by (simp add: step_def)
qed

subsection \<open>Cutting the command at the width\<close>

lemma narrow_walk_run:
  "run \<lparr>maxFiles = 10, lineWidth = 10\<rparr> (Some example_archive) = ([], Panicked SliceBounds)"
proof -
  have m: "manifests example_walked = manifest_item [''abc/layer.tar''] # []"
    by (simp add: example_walked_def)
  have s: "surviving example_walked = [step ''/bin/sh -c touch /a'']"
    by (simp add: example_walked_def surviving_def empty_step_def step_def)
  show ?thesis
    unfolding run_report [OF example_walk m] s
    by (simp add: manifest_item_def truncate_cmd_def humanizedWidth_def)
qed

text \<open>
  C8 says that every command longer than the configured width is shown cut to its
  first \<open>cmdWidth\<close> bytes. The width is \<open>lineWidth - 11\<close> and is negative for a
  line width below 11: then every command is longer than the width, the slice
  expression \<^verbatim>\<open>cmd[:cmdWidth]\<close> panics, and the run stops before it prints anything
  of the block. With \<^verbatim>\<open>-l 10\<close> the example archive gives no output at all.
\<close>

theorem negative_width_panics:
  "sint (lineWidth \<lparr>maxFiles = 10, lineWidth = 10\<rparr> - humanizedWidth - 4) = - 1 \<and>
   sint (lineWidth \<lparr>maxFiles = 10, lineWidth = 10\<rparr> - humanizedWidth - 4) < int (length ''touch /a'') \<and>
   truncate_cmd (lineWidth \<lparr>maxFiles = 10, lineWidth = 10\<rparr> - humanizedWidth - 4) ''touch /a''
     = Inl SliceBounds \<and>
   run \<lparr>maxFiles = 10, lineWidth = 10\<rparr> (Some example_archive) = ([], Panicked SliceBounds)"
  using narrow_walk_run by (simp add: humanizedWidth_def truncate_cmd_def)

text \<open>
  C8, amended. For a width \<open>cmdWidth \<ge> 0\<close> (a line width of at least 11, for which
  \<open>cmdWidth\<close> is the line width minus 11), a command longer than \<open>cmdWidth\<close> is
  shown as exactly its first \<open>cmdWidth\<close> bytes, whatever the bytes are, and a command
  of at most \<open>cmdWidth\<close> bytes is shown as it is. For a negative \<open>cmdWidth\<close> the
  slice expression panics.
\<close>

theorem truncate_cmd_cuts_bytes:
  "(0 \<le> sint cmdWidth \<and> sint cmdWidth < int (length cmd) \<longrightarrow>
      truncate_cmd cmdWidth cmd = Inr (take (nat (sint cmdWidth)) cmd) \<and>
      length (take (nat (sint cmdWidth)) cmd) = nat (sint cmdWidth))
   \<and> (int (length cmd) \<le> sint cmdWidth \<longrightarrow> truncate_cmd cmdWidth cmd = Inr cmd)
   \<and> (sint cmdWidth < 0 \<longrightarrow> truncate_cmd cmdWidth cmd = Inl SliceBounds)
   \<and> (11 \<le> sint lw \<longrightarrow> sint (lw - humanizedWidth - 4) = sint lw - 11)"
  by (auto simp: truncate_cmd_def cmdWidth_sint)

theorem truncate_cmd_cuts_bytes_witness:
  "0 \<le> sint (5 :: goint) \<and> sint (5 :: goint) < int (length ''touch /a'') \<and>
   truncate_cmd 5 ''touch /a'' = Inr ''touch'' \<and>
   int (length ''ls'') \<le> sint (5 :: goint) \<and>
   truncate_cmd 5 ''ls'' = Inr ''ls'' \<and>
   sint (- 1 :: goint) < 0 \<and>
   truncate_cmd (- 1) ''ls'' = Inl SliceBounds \<and>
   11 \<le> sint (100 :: goint) \<and>
   sint (100 - humanizedWidth - 4 :: goint) = 89"
  using truncate_cmd_cuts_bytes [of 5 "''touch /a''" 100]
        truncate_cmd_cuts_bytes [of 5 "''ls''" 100]
        truncate_cmd_cuts_bytes [of "- 1" "''ls''" 100]
  by simp

subsection \<open>The summary line\<close>

text \<open>
  C10. When the loop prints the block of a step, the summary line carries the cut
  command \<open>cmd\<close> itself: \<^verbatim>\<open>strings.Replace\<close> with the count 0 returns its argument,
  so a tab in the command stays a tab.
\<close>

theorem summary_has_command_verbatim:
  assumes "i < length ls"
      and "truncate_cmd cmdWidth (derive_cmd action) = Inr cmd"
      and "Repeat ''='' (lineWidth cfg) = Inr bar"
      and "lys (ls ! i) = Some layer"
  shows "take 4 (fst (report cfg cmdWidth ls i (action # rest) lys)) =
           [Blank, Rule bar, Summary (LayerSize layer) cmd, Rule bar]
         \<and> Replace cmd [CHR 0x09] '' '' 0 = cmd"
  using assms by (simp add: Let_def)

theorem summary_has_command_verbatim_witness:
  "0 < length [''abc/layer.tar''] \<and>
   truncate_cmd 89 (derive_cmd (step [CHR ''l'', CHR ''s'', CHR 0x09, CHR ''/'']))
     = Inr [CHR ''l'', CHR ''s'', CHR 0x09, CHR ''/''] \<and>
   Repeat ''='' (lineWidth default_flags) = Inr (replicate 100 CHR ''='') \<and>
   [''abc/layer.tar'' \<mapsto> abc_layer] ([''abc/layer.tar''] ! 0) = Some abc_layer \<and>
   take 4 (fst (report default_flags 89 [''abc/layer.tar''] 0
                  [step [CHR ''l'', CHR ''s'', CHR 0x09, CHR ''/'']]
                  [''abc/layer.tar'' \<mapsto> abc_layer])) =
     [Blank, Rule (replicate 100 CHR ''=''),
      Summary 100 [CHR ''l'', CHR ''s'', CHR 0x09, CHR ''/''],
      Rule (replicate 100 CHR ''='')]"
proof -
  have h1: "0 < length [''abc/layer.tar'']"
    by simp
  have h2: "truncate_cmd 89 (derive_cmd (step [CHR ''l'', CHR ''s'', CHR 0x09, CHR ''/'']))
              = Inr [CHR ''l'', CHR ''s'', CHR 0x09, CHR ''/'']"
    by (simp add: truncate_cmd_def derive_cmd_def step_def)
  have h3: "Repeat ''='' (lineWidth default_flags) = Inr (replicate 100 CHR ''='')"
    by (simp add: default_flags_def Repeat_bar)
  have h4: "[''abc/layer.tar'' \<mapsto> abc_layer] ([''abc/layer.tar''] ! 0) = Some abc_layer"
    by simp
  show ?thesis
    using summary_has_command_verbatim
      [where i = 0 and ls = "[''abc/layer.tar'']" and lys = "[''abc/layer.tar'' \<mapsto> abc_layer]"
         and rest = "[]", OF h1 h2 h3 h4]
      h1 h2 h3 h4
    by (simp add: abc_layer_def)
qed

subsection \<open>The files of a block\<close>

lemma length_sort_Files: "length (sort_Files fs) = length fs"
  using mset_sort_Files [of fs] by (metis size_mset)

text \<open>
  C7. The file lines of a block are those of the first \<open>maxFiles\<close> files of the
  sorted list, all of them when the layer has no more than \<open>maxFiles\<close>: their
  number is the minimum of \<open>maxFiles\<close> and the number of files of the layer. (A
  negative \<open>maxFiles\<close> prints no file line, as a limit of 0 does.)
\<close>

theorem file_lines_first_maxFiles:
  "file_lines mx 0 (sort_Files fs) =
     map (\<lambda>f. FileLine (Size f) (Name f)) (take (nat (sint mx)) (sort_Files fs))
   \<and> length (file_lines mx 0 (sort_Files fs)) = min (nat (sint mx)) (length fs)
   \<and> (0 \<le> sint mx \<longrightarrow>
        int (length (file_lines mx 0 (sort_Files fs))) = min (sint mx) (int (length fs)))
   \<and> (int (length fs) \<le> sint mx \<longrightarrow>
        file_lines mx 0 (sort_Files fs) = map (\<lambda>f. FileLine (Size f) (Name f)) (sort_Files fs))"
  by (auto simp: file_lines_take length_sort_Files min_def)

theorem file_lines_first_maxFiles_witness:
  "0 \<le> sint (1 :: goint) \<and>
   file_lines 1 0 (sort_Files [regular ''/a'' 0, regular ''/b'' 100]) = [FileLine 100 ''/b''] \<and>
   int (length (file_lines 1 0 (sort_Files [regular ''/a'' 0, regular ''/b'' 100])))
     = min (sint (1 :: goint)) (int (length [regular ''/a'' 0, regular ''/b'' 100])) \<and>
   int (length [regular ''/a'' 0, regular ''/b'' 100]) \<le> sint (10 :: goint) \<and>
   file_lines 10 0 (sort_Files [regular ''/a'' 0, regular ''/b'' 100])
     = [FileLine 100 ''/b'', FileLine 0 ''/a'']"
  using file_lines_first_maxFiles [of 1 "[regular ''/a'' 0, regular ''/b'' 100]"]
        file_lines_first_maxFiles [of 10 "[regular ''/a'' 0, regular ''/b'' 100]"]
  by (simp add: regular_def Less_def)

subsection \<open>The files and the total of a layer\<close>

lemma layer_loop_filter:
  "layer_loop hs fs tot =
     (fs @ filter (\<lambda>h. \<not> IsDir h) hs,
      tot + sum_list (map Size (filter (\<lambda>h. \<not> IsDir h) hs)))"
  by (induction hs arbitrary: fs tot) (simp_all add: add.assoc)

lemma read_layer_EOF:
  "read_layer (hs, EOF) =
     Inr \<lparr>Files = filter (\<lambda>h. \<not> IsDir h) hs,
          LayerSize = sum_list (map Size (filter (\<lambda>h. \<not> IsDir h) hs))\<rparr>"
  by (simp add: read_layer_def layer_loop_filter)

lemma sum_list_sint:
  "(sum_list (map Size fs) :: uint64) = word_of_int (\<Sum>h\<leftarrow>fs. sint (Size h))"
  by (induction fs) simp_all

lemma uint_sum_list_Size:
  "uint (sum_list (map Size fs) :: uint64) = (\<Sum>h\<leftarrow>fs. sint (Size h)) mod 2 ^ 64"
  by (simp add: sum_list_sint uint_word_of_int)

text \<open>
  C6 says that the total of a layer is the exact sum of the sizes of its entries that
  are not directories. \<^verbatim>\<open>total\<close> is a \<^verbatim>\<open>uint64\<close> and \<^verbatim>\<open>total += uint64(h.Size)\<close>
  wraps around: three entries of size \<open>2\<^sup>6\<^sup>3 - 1\<close> (headers that carry no content,
  such as links or sparse files, can declare any size) give the total \<open>2\<^sup>6\<^sup>3 - 3\<close>,
  not their sum.
\<close>

theorem total_wraps_around:
  "read_layer ([directory ''/big'', regular ''/x'' 0x7FFFFFFFFFFFFFFF,
                regular ''/y'' 0x7FFFFFFFFFFFFFFF, regular ''/z'' 0x7FFFFFFFFFFFFFFF], EOF)
     = Inr \<lparr>Files = [regular ''/x'' 0x7FFFFFFFFFFFFFFF, regular ''/y'' 0x7FFFFFFFFFFFFFFF,
                     regular ''/z'' 0x7FFFFFFFFFFFFFFF],
            LayerSize = 0x7FFFFFFFFFFFFFFD\<rparr> \<and>
   uint (0x7FFFFFFFFFFFFFFD :: uint64) = 9223372036854775805 \<and>
   (\<Sum>h\<leftarrow>[regular ''/x'' 0x7FFFFFFFFFFFFFFF, regular ''/y'' 0x7FFFFFFFFFFFFFFF,
            regular ''/z'' 0x7FFFFFFFFFFFFFFF]. sint (Size h)) = 27670116110564327421"
  by (simp add: read_layer_EOF regular_def directory_def)

text \<open>
  C6, amended. For every layer read from a nested archive, the directories are in
  neither the file list nor the total; the file list holds the other entries in the
  order of the archive; the total is the sum of their sizes in 64-bit unsigned
  arithmetic, that is their sum modulo \<open>2\<^sup>6\<^sup>4\<close>, and hence the exact sum whenever
  the sizes are not negative and their sum is below \<open>2\<^sup>6\<^sup>4\<close>.
\<close>

theorem read_layer_files_and_total:
  assumes "read_layer (hs, EOF) = Inr l"
  shows "Files l = filter (\<lambda>h. \<not> IsDir h) hs
       \<and> LayerSize l = sum_list (map Size (Files l))
       \<and> uint (LayerSize l) = (\<Sum>h\<leftarrow>Files l. sint (Size h)) mod 2 ^ 64
       \<and> ((\<forall>h \<in> set (Files l). 0 \<le> sint (Size h)) \<and> (\<Sum>h\<leftarrow>Files l. sint (Size h)) < 2 ^ 64
            \<longrightarrow> uint (LayerSize l) = (\<Sum>h\<leftarrow>Files l. sint (Size h)))"
proof -
  from assms have l: "l = \<lparr>Files = filter (\<lambda>h. \<not> IsDir h) hs,
      LayerSize = sum_list (map Size (filter (\<lambda>h. \<not> IsDir h) hs))\<rparr>"
    by (simp add: read_layer_EOF)
  have f: "Files l = filter (\<lambda>h. \<not> IsDir h) hs"
    by (simp add: l)
  have s: "LayerSize l = sum_list (map Size (Files l))"
    by (simp add: l)
  have u: "uint (LayerSize l) = (\<Sum>h\<leftarrow>Files l. sint (Size h)) mod 2 ^ 64"
    unfolding s by (rule uint_sum_list_Size)
  have "uint (LayerSize l) = (\<Sum>h\<leftarrow>Files l. sint (Size h))"
    if "(\<forall>h \<in> set (Files l). 0 \<le> sint (Size h)) \<and> (\<Sum>h\<leftarrow>Files l. sint (Size h)) < 2 ^ 64"
  proof -
    from that have "0 \<le> (\<Sum>h\<leftarrow>Files l. sint (Size h))"
      by (intro sum_list_nonneg) auto
    with that show ?thesis
      unfolding u by simp
  qed
  with f s u show ?thesis
    by blast
qed

theorem read_layer_files_and_total_witness:
  "read_layer (abc_files, EOF) = Inr abc_layer \<and>
   Files abc_layer = [regular ''/a'' 0, regular ''/b'' 100] \<and>
   0 \<le> sint (Size (regular ''/a'' 0)) \<and> 0 \<le> sint (Size (regular ''/b'' 100)) \<and>
   (\<Sum>h\<leftarrow>Files abc_layer. sint (Size h)) = 100 \<and>
   uint (LayerSize abc_layer) = 100"
proof -
  have r: "read_layer (abc_files, EOF) = Inr abc_layer"
    by (simp add: read_layer_EOF abc_files_def abc_layer_def regular_def directory_def)
  have f: "Files abc_layer = [regular ''/a'' 0, regular ''/b'' 100]"
    by (simp add: abc_layer_def)
  have s: "(\<Sum>h\<leftarrow>Files abc_layer. sint (Size h)) = 100"
    by (simp add: abc_layer_def regular_def)
  have p: "0 \<le> sint (Size (regular ''/a'' 0))" "0 \<le> sint (Size (regular ''/b'' 100))"
    by (simp_all add: regular_def)
  have "uint (LayerSize abc_layer) = 100"
    using read_layer_files_and_total [OF r] p s by (simp add: f regular_def)
  with r f s p show ?thesis
    by simp
qed

subsection \<open>The order of the files\<close>

lemma sorted_wrt_unique:
  assumes anti: "\<And>a b. R a b \<Longrightarrow> R b a \<Longrightarrow> a = b"
      and refl: "\<And>a. R a a"
  shows "sorted_wrt R xs \<Longrightarrow> sorted_wrt R ys \<Longrightarrow> mset xs = mset ys \<Longrightarrow> xs = ys"
proof (induction xs arbitrary: ys)
  case Nil
  then show ?case by simp
next
  case (Cons x xs)
  from Cons.prems(3) obtain y ys' where ys: "ys = y # ys'"
    by (cases ys) auto
  have "x \<in> set ys"
    using Cons.prems(3) by (metis list.set_intros(1) set_mset_mset)
  with Cons.prems(2) ys refl have yx: "R y x"
    by auto
  have "y \<in> set (x # xs)"
    using Cons.prems(3) ys by (metis list.set_intros(1) set_mset_mset)
  with Cons.prems(1) refl have xy: "R x y"
    by auto
  from xy yx have eq: "x = y"
    by (rule anti)
  with Cons.prems ys have "xs = ys'"
    by (intro Cons.IH) simp_all
  with eq ys show ?case by simp
qed

lemma sorted_ranked_unique:
  assumes "sorted_wrt ranked xs" and "sorted_wrt ranked ys" and "mset ys = mset xs"
  shows "map (\<lambda>h. (Size h, Name h)) ys = map (\<lambda>h. (Size h, Name h)) xs"
proof -
  let ?R = "\<lambda>(k :: int64 \<times> string) k'. (fst k \<noteq> fst k' \<longrightarrow> sint (fst k') < sint (fst k)) \<and>
             (fst k = fst k' \<longrightarrow> snd k \<le> snd k')"
  let ?key = "\<lambda>h. (Size h, Name h)"
  have r: "ranked = (\<lambda>a b. ?R (?key a) (?key b))"
    by (intro ext) (simp add: ranked_def)
  have a: "sorted_wrt ?R (map ?key ys)"
    using assms(2) unfolding r by (simp add: sorted_wrt_map)
  have b: "sorted_wrt ?R (map ?key xs)"
    using assms(1) unfolding r by (simp add: sorted_wrt_map)
  have c: "mset (map ?key ys) = mset (map ?key xs)"
    using assms(3) by (metis mset_map)
  have anti: "\<And>k k'. ?R k k' \<Longrightarrow> ?R k' k \<Longrightarrow> k = k'"
    by (auto simp: prod_eq_iff)
  have refl: "\<And>k. ?R k k"
    by simp
  from anti refl a b c show ?thesis
    by (rule sorted_wrt_unique)
qed

text \<open>
  C4. The sorted file list of a layer is a permutation of the list; of two files in
  it with different sizes the larger stands first, and of two with the same size the
  one with the smaller name (in byte order) stands first; sorting a sorted list
  leaves it as it is. The last part is about \<^verbatim>\<open>sort.Sort\<close> itself: any arrangement
  \<open>ys\<close> of the files in which no file is \<open>Less\<close> than one before it is ordered
  in this way and shows the same sizes and names, line by line, as the model.
\<close>

theorem sort_Files_ranked:
  "mset (sort_Files fs) = mset fs
   \<and> sorted_wrt ranked (sort_Files fs)
   \<and> sort_Files (sort_Files fs) = sort_Files fs
   \<and> (sorted_wrt ranked fs \<longrightarrow> sort_Files fs = fs)
   \<and> (mset ys = mset fs \<and> sorted_wrt (\<lambda>a b. \<not> Less b a) ys \<longrightarrow>
        sorted_wrt ranked ys \<and>
        map (\<lambda>h. (Size h, Name h)) ys = map (\<lambda>h. (Size h, Name h)) (sort_Files fs))"
proof (intro conjI impI)
  assume h: "mset ys = mset fs \<and> sorted_wrt (\<lambda>a b. \<not> Less b a) ys"
  have r: "ranked = (\<lambda>a b. \<not> Less b a)"
    by (intro ext) (rule ranked_iff)
  from h show s: "sorted_wrt ranked ys"
    by (simp add: r)
  from h have "mset ys = mset (sort_Files fs)"
    by (simp add: mset_sort_Files)
  with sorted_sort_Files s
  show "map (\<lambda>h. (Size h, Name h)) ys = map (\<lambda>h. (Size h, Name h)) (sort_Files fs)"
    by (rule sorted_ranked_unique)
qed (simp_all add: mset_sort_Files sorted_sort_Files sort_Files_idem sort_Files_sorted)

theorem sort_Files_ranked_witness:
  "sort_Files [regular ''/a'' 0, regular ''/c'' 100, regular ''/b'' 100, regular ''/d'' 7]
     = [regular ''/b'' 100, regular ''/c'' 100, regular ''/d'' 7, regular ''/a'' 0] \<and>
   sorted_wrt ranked [regular ''/b'' 100, regular ''/c'' 100, regular ''/d'' 7, regular ''/a'' 0] \<and>
   sort_Files [regular ''/b'' 100, regular ''/c'' 100, regular ''/d'' 7, regular ''/a'' 0]
     = [regular ''/b'' 100, regular ''/c'' 100, regular ''/d'' 7, regular ''/a'' 0] \<and>
   mset [regular ''/d'' 7, regular ''/a'' 0, regular ''/b'' 100, regular ''/c'' 100]
     = mset [regular ''/a'' 0, regular ''/c'' 100, regular ''/b'' 100, regular ''/d'' 7]"
proof -
  let ?fs = "[regular ''/a'' 0, regular ''/c'' 100, regular ''/b'' 100, regular ''/d'' 7]"
  let ?sorted = "[regular ''/b'' 100, regular ''/c'' 100, regular ''/d'' 7, regular ''/a'' 0]"
  have e: "sort_Files ?fs = ?sorted"
    by (simp add: regular_def Less_def)
  have m: "mset [regular ''/d'' 7, regular ''/a'' 0, regular ''/b'' 100, regular ''/c'' 100]
             = mset ?fs"
    by simp
  have s: "sorted_wrt ranked ?sorted"
    using sort_Files_ranked [of ?fs] unfolding e by blast
  then have "sort_Files ?sorted = ?sorted"
    using sort_Files_ranked [of ?sorted] by blast
  with e s m show ?thesis
    by simp
qed

subsection \<open>Several image configurations in one archive\<close>
















subsection \<open>Failures before the report\<close>

text \<open>
  The filter writes into the array it reads from, and still yields the steps that are
  not marked empty, in their order, as the function does on separate slices.
\<close>

theorem removeEmptyLayers_in_place:
  "removeEmptyLayers_shared hs 0 0 (length hs) = filter (\<lambda>a. \<not> EmptyLayer a) hs
   \<and> removeEmptyLayers [] hs = filter (\<lambda>a. \<not> EmptyLayer a) hs"
  by (simp add: removeEmptyLayers_shared_filter removeEmptyLayers_filter)

text \<open>
  A file that cannot be opened, a broken archive or a JSON document that does not
  decode ends the run with the error, before anything is printed.
\<close>

theorem walk_failure_prints_nothing:
  "run cfg None = ([], Failed OpenError)
   \<and> (walk start (entries r) (ending r) = Inl e \<longrightarrow> run cfg (Some r) = ([], Failed e))"
  by (simp add: run_def)

theorem walk_failure_prints_nothing_witness:
  "walk start (entries broken_archive) (ending broken_archive) = Inl JSONError \<and>
   run default_flags (Some broken_archive) = ([], Failed JSONError) \<and>
   walk start (entries truncated_archive) (ending truncated_archive) = Inl TarError \<and>
   run default_flags (Some truncated_archive) = ([], Failed TarError)"
proof -
  have b: "walk start (entries broken_archive) (ending broken_archive) = Inl JSONError"
    by (simp add: broken_archive_def example_defs walk_defs)
  have t: "walk start (entries truncated_archive) (ending truncated_archive) = Inl TarError"
    by (simp add: truncated_archive_def example_defs walk_defs)
  from b t walk_failure_prints_nothing [of default_flags broken_archive JSONError]
    walk_failure_prints_nothing [of default_flags truncated_archive TarError]
  show ?thesis
    by simp
qed

text \<open>
  An archive without \<^verbatim>\<open>manifest.json\<close> (or with an empty manifest) makes
  \<^verbatim>\<open>manifests[0]\<close> panic: a fatal error and no output.
\<close>

theorem no_manifest_panics:
  assumes "walk start (entries r) (ending r) = Inr st"
      and "manifests st = []"
  shows "run cfg (Some r) = ([], Panicked IndexOutOfRange)"
  using assms by (simp add: run_def)

theorem no_manifest_panics_witness:
  "walk start (entries no_manifest_archive) (ending no_manifest_archive)
     = Inr \<lparr>manifests = [], img = \<lparr>History = [step ''COPY . .''], History_spare = []\<rparr>,
            layers = [''abc/layer.tar'' \<mapsto> abc_layer]\<rparr> \<and>
   run default_flags (Some no_manifest_archive) = ([], Panicked IndexOutOfRange)"
proof -
  have w: "walk start (entries no_manifest_archive) (ending no_manifest_archive)
     = Inr \<lparr>manifests = [], img = \<lparr>History = [step ''COPY . .''], History_spare = []\<rparr>,
            layers = [''abc/layer.tar'' \<mapsto> abc_layer]\<rparr>"
    by (simp add: no_manifest_archive_def example_defs walk_defs)
  have "manifests \<lparr>manifests = [], img = \<lparr>History = [step ''COPY . .''], History_spare = []\<rparr>,
            layers = [''abc/layer.tar'' \<mapsto> abc_layer]\<rparr> = []"
    by simp
  with w have "run default_flags (Some no_manifest_archive) = ([], Panicked IndexOutOfRange)"
    by (rule no_manifest_panics)
  with w show ?thesis
    by simp
qed

text \<open>
  A layer path of the manifest that names no layer of the archive is fatal as well:
  the lookup yields \<^verbatim>\<open>nil\<close>, and \<^verbatim>\<open>layer.Size\<close> panics when the summary line is
  built, after the blank line and the first rule of the block have been printed.
\<close>

theorem missing_layer_panics:
  assumes "i < length ls"
      and "lys (ls ! i) = None"
      and "11 \<le> sint (lineWidth cfg)"
  shows "report cfg (lineWidth cfg - humanizedWidth - 4) ls i (action # rest) lys =
           ([Blank, Rule (replicate (nat (sint (lineWidth cfg))) CHR ''='')],
            Panicked NilDereference)"
proof -
  have w: "sint (lineWidth cfg - humanizedWidth - 4) = sint (lineWidth cfg) - 11"
    using assms(3) by (rule cmdWidth_sint)
  have t: "truncate_cmd (lineWidth cfg - humanizedWidth - 4) (derive_cmd action)
             = Inr (take (nat (sint (lineWidth cfg) - 11)) (derive_cmd action))"
    using assms(3) w by (simp add: truncate_cmd_take)
  have r: "Repeat ''='' (lineWidth cfg) = Inr (replicate (nat (sint (lineWidth cfg))) CHR ''='')"
    using assms(3) by (intro Repeat_bar) simp
  show ?thesis
    using assms(1,2) by (simp add: t r)
qed

theorem missing_layer_panics_witness:
  "run default_flags (Some missing_layer_archive) =
     ([Blank, Rule (replicate 100 CHR ''='')], Panicked NilDereference)"
proof -
  have w: "walk start (entries missing_layer_archive) (ending missing_layer_archive)
     = Inr \<lparr>manifests = [manifest_item [''abc/layer.tar'']],
            img = \<lparr>History = [step ''COPY . .''], History_spare = []\<rparr>, layers = Map.empty\<rparr>"
    by (simp add: missing_layer_archive_def example_defs walk_defs)
  have m: "manifests \<lparr>manifests = [manifest_item [''abc/layer.tar'']],
            img = \<lparr>History = [step ''COPY . .''], History_spare = []\<rparr>, layers = Map.empty\<rparr>
           = manifest_item [''abc/layer.tar''] # []"
    by simp
  have h1: "0 < length [''abc/layer.tar'']"
    by simp
  have h2: "Map.empty ([''abc/layer.tar''] ! 0) = (None :: Layer option)"
    by simp
  have h3: "11 \<le> sint (lineWidth default_flags)"
    by (simp add: default_flags_def)
  have "report default_flags (lineWidth default_flags - humanizedWidth - 4) [''abc/layer.tar''] 0
          (step ''COPY . .'' # []) Map.empty =
           ([Blank, Rule (replicate (nat (sint (lineWidth default_flags))) CHR ''='')],
            Panicked NilDereference)"
    using h1 h2 h3 by (rule missing_layer_panics)
  then show ?thesis
    unfolding run_report [OF w m]
    by (simp add: surviving_def step_def manifest_item_def default_flags_def)
qed

end
